theory Spec2Isabelle
  imports Complex_Main
begin

section \<open>Common ground: errors, the random source, frames\<close>

text \<open>
  The two scripts of the repository, \<^verbatim>\<open>canvas_generator.py\<close> and
  \<^verbatim>\<open>v7_album_artwork.py\<close>, are embedded as HOL functions. Python exceptions are
  values of the type \<open>error\<close>; a function that may raise returns \<open>error + 'a\<close>.

  Python floats are idealised as exact rationals (\<open>rat\<close>): rounding of IEEE doubles is
  not modelled, and every statement below says so where a float is involved. The one
  exception is the resize and crop stage, where the rounding is a parameter.
\<close>

datatype error =
  ValueError | ZeroDivisionError | FileNotFoundError | IsADirectoryError | FileExistsError
  | MemoryError

text \<open>
  The module-level random source of Python's \<^verbatim>\<open>random\<close> is an infinite tape of
  natural numbers, consumed from the front. \<^verbatim>\<open>random.random()\<close> yields \<open>k / 2^53\<close>
  for a 53-bit \<open>k\<close> (such a number is below the double 0.1 exactly when it is below
  1/10); \<^verbatim>\<open>random.randint(a, b)\<close> yields an integer of \<open>[a, b]\<close> and raises
  \<^verbatim>\<open>ValueError\<close> when the range is empty. Quantifying over all tapes covers all
  random choices.
\<close>

type_synonym rng = "nat \<Rightarrow> nat"

definition random_random :: "rng \<Rightarrow> rat \<times> rng" where
  "random_random g = (of_nat (g 0 mod 9007199254740992) / 9007199254740992, g \<circ> Suc)"

definition randint :: "int \<Rightarrow> int \<Rightarrow> rng \<Rightarrow> (error + int) \<times> rng" where
  "randint a b g =
     (if b < a then (Inl ValueError, g)
      else (Inr (a + int (g 0) mod (b - a + 1)), g \<circ> Suc))"

text \<open>
  A frame is the \<^verbatim>\<open>numpy\<close> array of an image: rows of pixels, a pixel being its channel
  samples (\<^verbatim>\<open>uint8\<close> values). \<^verbatim>\<open>img_array.shape[:2]\<close> is \<open>(height, width)\<close>. For an
  array without rows the list has forgotten the width; \<open>frame_width\<close> then gives 0, and
  \<open>apply_smearing\<close> returns such an array unchanged whatever its width is.
\<close>

type_synonym pixel = "nat list"
type_synonym frame = "pixel list list"

definition frame_height :: "frame \<Rightarrow> nat" where
  "frame_height arr = length arr"

definition frame_width :: "frame \<Rightarrow> nat" where
  "frame_width arr = (case arr of [] \<Rightarrow> 0 | r # _ \<Rightarrow> length r)"

definition has_shape :: "nat \<Rightarrow> nat \<Rightarrow> nat \<Rightarrow> frame \<Rightarrow> bool" where
  "has_shape h w c arr \<longleftrightarrow>
     length arr = h \<and> list_all (\<lambda>r. length r = w \<and> list_all (\<lambda>p. length p = c) r) arr"

definition all_black :: "frame \<Rightarrow> bool" where
  "all_black arr \<longleftrightarrow> list_all (list_all (list_all (\<lambda>v. v = 0))) arr"

section \<open>canvas\_generator: smearing\<close>

text \<open>
  Line 46: \<^verbatim>\<open>alpha = 1.0 - ((y - y_start) / streak_height)\<close>.
\<close>

definition smear_alpha :: "nat \<Rightarrow> nat \<Rightarrow> int \<Rightarrow> rat" where
  "smear_alpha y y_start streak_height = 1 - of_nat (y - y_start) / of_int streak_height"

text \<open>
  Line 47: \<^verbatim>\<open>img_array[y] = (img_array[y] * alpha + img_array[y-1] * (1-alpha))\<close>.
  The right-hand side is a float array; storing it into the \<^verbatim>\<open>uint8\<close> array truncates
  each sample. The assignment replaces the whole row \<open>y\<close>, in every column.
\<close>

definition blend_sample :: "rat \<Rightarrow> nat \<Rightarrow> nat \<Rightarrow> nat" where
  "blend_sample alpha a b = nat \<lfloor>of_nat a * alpha + of_nat b * (1 - alpha)\<rfloor>"

definition blend_rows :: "rat \<Rightarrow> pixel list \<Rightarrow> pixel list \<Rightarrow> pixel list" where
  "blend_rows alpha row row_above = map2 (map2 (blend_sample alpha)) row row_above"

definition smear_row :: "nat \<Rightarrow> int \<Rightarrow> frame \<Rightarrow> nat \<Rightarrow> frame" where
  "smear_row y_start streak_height arr y =
     (if y > 0
      then arr[y := blend_rows (smear_alpha y y_start streak_height) (arr ! y) (arr ! (y - 1))]
      else arr)"

text \<open>The loop of line 44 over the rows of one streak.\<close>

fun smear_rows :: "nat list \<Rightarrow> nat \<Rightarrow> int \<Rightarrow> frame \<Rightarrow> frame" where
  "smear_rows [] y_start streak_height arr = arr"
| "smear_rows (y # ys) y_start streak_height arr =
     smear_rows ys y_start streak_height (smear_row y_start streak_height arr y)"

definition streak_range :: "int \<Rightarrow> int \<Rightarrow> nat \<Rightarrow> nat list" where
  "streak_range y_start streak_height height =
     [nat y_start ..< nat (min (y_start + streak_height) (int height))]"

text \<open>
  The loop of line 40 over the columns; the first argument counts the columns still to
  visit (the column index itself is never used by the body). An exception of
  \<^verbatim>\<open>randint\<close> leaves the loop.
\<close>

fun smear_columns :: "nat \<Rightarrow> int \<Rightarrow> frame \<Rightarrow> rng \<Rightarrow> (error + frame) \<times> rng" where
  "smear_columns 0 strength arr g = (Inr arr, g)"
| "smear_columns (Suc n) strength arr g =
     (case random_random g of (u, g1) \<Rightarrow>
        if u < 1 / 10 then
          (case randint 10 strength g1 of
             (Inl e, g2) \<Rightarrow> (Inl e, g2)
           | (Inr streak_height, g2) \<Rightarrow>
               (case randint 0 (int (frame_height arr) - streak_height) g2 of
                  (Inl e, g3) \<Rightarrow> (Inl e, g3)
                | (Inr y_start, g3) \<Rightarrow>
                    smear_columns n strength
                      (smear_rows (streak_range y_start streak_height (frame_height arr))
                         (nat y_start) streak_height arr) g3))
        else smear_columns n strength arr g1)"

text \<open>
  \<^verbatim>\<open>apply_smearing\<close>: the array is a copy of the image, so the \<^verbatim>\<open>except\<close> branch
  returns the image as it came in.
\<close>

definition apply_smearing :: "frame \<Rightarrow> int \<Rightarrow> rng \<Rightarrow> frame \<times> rng" where
  "apply_smearing img strength g =
     (case smear_columns (frame_width img) strength img g of
        (Inl e, g') \<Rightarrow> (img, g')
      | (Inr img_array, g') \<Rightarrow> (img_array, g'))"

section \<open>canvas\_generator: crossfade synthesis\<close>

text \<open>
  \<^verbatim>\<open>blend_images\<close> is Pillow's \<^verbatim>\<open>Image.blend\<close>, a library function: it raises
  \<^verbatim>\<open>ValueError\<close> when the two images differ in size or mode, and otherwise computes
  \<open>image1 * (1 - alpha) + image2 * alpha\<close> sample by sample, truncated to \<^verbatim>\<open>uint8\<close>.
\<close>

definition blend_px :: "rat \<Rightarrow> nat \<Rightarrow> nat \<Rightarrow> nat" where
  "blend_px alpha a b = nat \<lfloor>of_nat a + alpha * (of_nat b - of_nat a)\<rfloor>"

definition blend_images :: "frame \<Rightarrow> frame \<Rightarrow> rat \<Rightarrow> error + frame" where
  "blend_images img1 img2 alpha =
     (if map (map length) img1 \<noteq> map (map length) img2 then Inl ValueError
      else Inr (map2 (map2 (map2 (blend_px alpha))) img1 img2))"

text \<open>Line 68: \<^verbatim>\<open>alpha = (j + 1) / (num_transition_frames + 1)\<close>.\<close>

definition transition_alpha :: "nat \<Rightarrow> int \<Rightarrow> rat" where
  "transition_alpha j num_transition_frames =
     (of_nat j + 1) / (of_int num_transition_frames + 1)"

text \<open>
  The inner loop of lines 67 to 71 over \<open>j\<close>; \<open>smoothed_frames\<close> is the list being
  appended to. An exception of \<^verbatim>\<open>Image.blend\<close> is not caught here.
\<close>

fun crossfade_transitions ::
  "frame \<Rightarrow> frame \<Rightarrow> int \<Rightarrow> nat list \<Rightarrow> frame list \<Rightarrow> rng \<Rightarrow> (error + frame list) \<times> rng"
where
  "crossfade_transitions current_frame next_frame k [] smoothed_frames g =
     (Inr smoothed_frames, g)"
| "crossfade_transitions current_frame next_frame k (j # js) smoothed_frames g =
     (case blend_images current_frame next_frame (transition_alpha j k) of
        Inl e \<Rightarrow> (Inl e, g)
      | Inr transition_frame \<Rightarrow>
          (case apply_smearing transition_frame 30 g of
             (transition_frame', g1) \<Rightarrow>
               crossfade_transitions current_frame next_frame k js
                 (smoothed_frames @ [transition_frame']) g1))"

text \<open>The outer loop of lines 61 to 71 over \<open>i\<close>.\<close>

fun crossfade_loop ::
  "frame list \<Rightarrow> int \<Rightarrow> nat list \<Rightarrow> frame list \<Rightarrow> rng \<Rightarrow> (error + frame list) \<times> rng"
where
  "crossfade_loop glitch_frames k [] smoothed_frames g = (Inr smoothed_frames, g)"
| "crossfade_loop glitch_frames k (i # is) smoothed_frames g =
     (case apply_smearing (glitch_frames ! i) 40 g of
        (current_frame, g1) \<Rightarrow>
          (case apply_smearing (glitch_frames ! ((i + 1) mod length glitch_frames)) 40 g1 of
             (next_frame, g2) \<Rightarrow>
               (case crossfade_transitions current_frame next_frame k [0 ..< nat k]
                       (smoothed_frames @ [current_frame]) g2 of
                  (Inl e, g3) \<Rightarrow> (Inl e, g3)
                | (Inr smoothed_frames', g3) \<Rightarrow>
                    crossfade_loop glitch_frames k is smoothed_frames' g3)))"

definition create_crossfade_frames ::
  "frame list \<Rightarrow> int \<Rightarrow> rng \<Rightarrow> (error + frame list) \<times> rng" where
  "create_crossfade_frames glitch_frames num_transition_frames g =
     crossfade_loop glitch_frames num_transition_frames [0 ..< length glitch_frames] [] g"

text \<open>
  What one round of the outer loop appends for the frame of index \<open>i\<close>: the smeared
  frame, then one frame per \<open>j\<close>, each the smeared blend of the smeared frame \<open>i\<close> and the
  smeared frame \<open>(i + 1) mod L\<close> at the weight of line 68. The random tapes are those the
  run happens to be in at each call.
\<close>

definition crossfade_segment :: "frame list \<Rightarrow> int \<Rightarrow> nat \<Rightarrow> frame list \<Rightarrow> bool" where
  "crossfade_segment glitch_frames k i seg \<longleftrightarrow>
     (\<exists>g1 g2 ts.
        seg = fst (apply_smearing (glitch_frames ! i) 40 g1) # ts \<and>
        length ts = nat k \<and>
        (\<forall>j < nat k. \<exists>b g3.
           blend_images (fst (apply_smearing (glitch_frames ! i) 40 g1))
             (fst (apply_smearing (glitch_frames ! ((i + 1) mod length glitch_frames)) 40 g2))
             ((of_nat j + 1) / (of_int k + 1)) = Inr b \<and>
           ts ! j = fst (apply_smearing b 30 g3)))"

section \<open>canvas\_generator: aspect-fit resize and crop\<close>

definition TARGET_WIDTH :: int where
  "TARGET_WIDTH = 720"

definition TARGET_HEIGHT :: int where
  "TARGET_HEIGHT = 1280"

text \<open>
  Pillow's \<^verbatim>\<open>crop\<close> returns an image of the size of the box, whether or not the box
  lies inside the image (what lies outside is filled with zeros).
\<close>

definition crop_size :: "int \<times> int \<times> int \<times> int \<Rightarrow> int \<times> int" where
  "crop_size box = (case box of (left, upper, right, lower) \<Rightarrow> (right - left, lower - upper))"

text \<open>
  In this stage the rounding of doubles decides an integer, so it is not idealised away:
  \<open>rnd\<close> is the rounding of an exact result to a double. What is used of it is that it is
  monotone and leaves alone what a double holds exactly, an integer of at most 53 bits
  over a power of two (within the normal range).
\<close>

definition double_rounding :: "(rat \<Rightarrow> rat) \<Rightarrow> bool" where
  "double_rounding rnd \<longleftrightarrow>
     (\<forall>x y. x \<le> y \<longrightarrow> rnd x \<le> rnd y) \<and>
     (\<forall>(m::int) (e::nat). \<bar>m\<bar> \<le> 2 ^ 53 \<and> e \<le> 1000 \<longrightarrow> rnd (of_int m / 2 ^ e) = of_int m / 2 ^ e)"

text \<open>
  Lines 123 to 131 of \<^verbatim>\<open>create_spotify_canvas\<close>: the size the image is resized to.
  \<^verbatim>\<open>int(...)\<close> truncates; its arguments are positive here. The two true divisions
  raise \<^verbatim>\<open>ZeroDivisionError\<close> on a zero divisor.
\<close>

definition resized_size :: "(rat \<Rightarrow> rat) \<Rightarrow> nat \<times> nat \<Rightarrow> error + int \<times> int" where
  "resized_size rnd image_size =
     (case image_size of (w, h) \<Rightarrow>
        if h = 0 then Inl ZeroDivisionError
        else
          let original_aspect = rnd (of_nat w / of_nat h);
              canvas_aspect = rnd (of_int TARGET_WIDTH / of_int TARGET_HEIGHT)
          in if original_aspect > canvas_aspect
             then Inr (\<lfloor>rnd (of_int TARGET_HEIGHT * original_aspect)\<rfloor>, TARGET_HEIGHT)
             else if original_aspect = 0 then Inl ZeroDivisionError
             else Inr (TARGET_WIDTH, \<lfloor>rnd (of_int TARGET_WIDTH / original_aspect)\<rfloor>))"

text \<open>
  Line 134: \<^verbatim>\<open>image.resize((new_width, new_height), ...)\<close> is Pillow's. It is the
  parameter \<open>resize_lib\<close>, from the size of the image and the size asked for to the size of
  the resized image, or to the exception it raises: the new image has to be allocated,
  and \<^verbatim>\<open>MemoryError\<close> is raised when it cannot be. When it returns, the image has the
  size asked for.
\<close>

type_synonym resize_lib = "nat \<times> nat \<Rightarrow> int \<times> int \<Rightarrow> error + int \<times> int"

definition resize_contract :: "resize_lib \<Rightarrow> bool" where
  "resize_contract resize_lib \<longleftrightarrow>
     (\<forall>image_size new_size resized.
        resize_lib image_size new_size = Inr resized \<longrightarrow> resized = new_size)"

text \<open>
  Lines 136 to 139: the crop box, computed from the size of the resized image (the
  source's \<^verbatim>\<open>top\<close> and \<^verbatim>\<open>bottom\<close> are \<open>upper\<close> and \<open>lower\<close> here, as in Pillow's
  description of a box).
\<close>

definition center_box :: "int \<times> int \<Rightarrow> int \<times> int \<times> int \<times> int" where
  "center_box resized =
     (case resized of (new_width, new_height) \<Rightarrow>
        let left = (new_width - TARGET_WIDTH) div 2;
            upper = (new_height - TARGET_HEIGHT) div 2;
            right = left + TARGET_WIDTH;
            lower = upper + TARGET_HEIGHT
        in (left, upper, right, lower))"

text \<open>
  The stage as a whole, lines 123 to 141: the size of the resized image, the crop box,
  and the size of the cropped image; or the exception of a division or of the resize.
\<close>

definition fit_and_crop ::
  "resize_lib \<Rightarrow> (rat \<Rightarrow> rat) \<Rightarrow> nat \<times> nat \<Rightarrow>
     error + ((int \<times> int) \<times> (int \<times> int \<times> int \<times> int) \<times> (int \<times> int))" where
  "fit_and_crop resize_lib rnd image_size =
     (case resized_size rnd image_size of
        Inl e \<Rightarrow> Inl e
      | Inr new_size \<Rightarrow>
          (case resize_lib image_size new_size of
             Inl e \<Rightarrow> Inl e
           | Inr resized \<Rightarrow> Inr (resized, center_box resized, crop_size (center_box resized))))"

section \<open>The file system and the outcome of a pipeline\<close>

text \<open>
  A path names a file with its bytes, a directory, or nothing. A pipeline either returns
  (\<open>None\<close> is Python's \<^verbatim>\<open>None\<close>) or lets an exception escape.
\<close>

type_synonym bytes = "nat list"

datatype fs_entry = File bytes | Dir

type_synonym fs = "string \<rightharpoonup> fs_entry"

datatype 'r outcome = Returned "'r option" | Raised error

definition path_exists :: "fs \<Rightarrow> string \<Rightarrow> bool" where
  "path_exists files path \<longleftrightarrow> files path \<noteq> None"

definition open_rb :: "fs \<Rightarrow> string \<Rightarrow> error + bytes" where
  "open_rb files path =
     (case files path of
        None \<Rightarrow> Inl FileNotFoundError
      | Some Dir \<Rightarrow> Inl IsADirectoryError
      | Some (File content) \<Rightarrow> Inr content)"

text \<open>
  \<^verbatim>\<open>os.makedirs(output_dir, exist_ok=True)\<close>; parent directories are not modelled.
\<close>

definition makedirs :: "fs \<Rightarrow> string \<Rightarrow> error + fs" where
  "makedirs files d =
     (case files d of
        Some (File content) \<Rightarrow> Inl FileExistsError
      | _ \<Rightarrow> Inr (files(d \<mapsto> Dir)))"

section \<open>canvas\_generator: the pipeline and its guard\<close>

text \<open>
  \<^verbatim>\<open>create_spotify_canvas\<close>: the guard of lines 96 to 98, then lines 100 to 179 as the
  parameter \<open>process\<close> (decoding, glitching, encoding: external tools), which yields what
  it printed, its result or its exception, and the file system it left. The \<^verbatim>\<open>except\<close>
  of line 180 turns an exception into a message (here without the text of the exception)
  and \<^verbatim>\<open>None\<close>. The first component of the result is what was printed.
\<close>

definition create_spotify_canvas ::
  "(fs \<Rightarrow> string \<Rightarrow> string list \<times> (error + 'r) \<times> fs) \<Rightarrow> fs \<Rightarrow> string \<Rightarrow>
     string list \<times> 'r outcome \<times> fs" where
  "create_spotify_canvas process files input_image_path =
     (if \<not> path_exists files input_image_path
      then ([''Error: File does not exist''], Returned None, files)
      else (case process files input_image_path of
              (printed, Inl e, files') \<Rightarrow>
                (printed @ [''Error processing image''], Returned None, files')
            | (printed, Inr result, files') \<Rightarrow> (printed, Returned (Some result), files')))"

text \<open>
  Lines 100 to 141 as such a process, and the lines after them as the parameter
  \<open>later\<close>: the output directory is created, the image is opened (\<open>decode\<close> is Pillow's
  decoder, from the bytes of the file to the image, here its size), resized and cropped.
  Each exception leaves the body at once. The progress messages of these lines are left
  out.
\<close>

definition canvas_process ::
  "resize_lib \<Rightarrow> (rat \<Rightarrow> rat) \<Rightarrow> (string \<Rightarrow> string) \<Rightarrow> (bytes \<Rightarrow> error + nat \<times> nat) \<Rightarrow>
     ((int \<times> int) \<times> (int \<times> int \<times> int \<times> int) \<times> (int \<times> int) \<Rightarrow> fs \<Rightarrow> string list \<times> (error + 'r) \<times> fs) \<Rightarrow>
     fs \<Rightarrow> string \<Rightarrow> string list \<times> (error + 'r) \<times> fs" where
  "canvas_process resize_lib rnd output_dir_of decode later files input_image_path =
     (case makedirs files (output_dir_of input_image_path) of
        Inl e \<Rightarrow> ([], Inl e, files)
      | Inr files1 \<Rightarrow>
          (case open_rb files1 input_image_path of
             Inl e \<Rightarrow> ([], Inl e, files1)
           | Inr content \<Rightarrow>
               (case decode content of
                  Inl e \<Rightarrow> ([], Inl e, files1)
                | Inr image_size \<Rightarrow>
                    (case fit_and_crop resize_lib rnd image_size of
                       Inl e \<Rightarrow> ([], Inl e, files1)
                     | Inr cropped \<Rightarrow> later cropped files1))))"

section \<open>v7\_album\_artwork: fingerprint\<close>

text \<open>
  \<^verbatim>\<open>hashlib.sha256\<close> is a library object: a state, \<^verbatim>\<open>update\<close> and
  \<^verbatim>\<open>hexdigest\<close>. Its documented contract is that feeding \<open>a\<close> and then \<open>b\<close> is feeding
  their concatenation.
\<close>

record 'h hasher =
  sha_init :: 'h
  sha_update :: "'h \<Rightarrow> bytes \<Rightarrow> 'h"
  sha_hexdigest :: "'h \<Rightarrow> string"

definition hashlib_contract :: "'h hasher \<Rightarrow> bool" where
  "hashlib_contract H \<longleftrightarrow>
     (\<forall>s a b. sha_update H (sha_update H s a) b = sha_update H s (a @ b)) \<and>
     (\<forall>s. sha_update H s [] = s)"

text \<open>
  The loop of lines 28 to 32: \<^verbatim>\<open>f.read(65536)\<close> yields the next 65536 bytes, fewer at
  the end of the file, none after it.
\<close>

function read_chunks :: "'h hasher \<Rightarrow> 'h \<Rightarrow> bytes \<Rightarrow> 'h" where
  "read_chunks H sha256 rest =
     (let data = take 65536 rest
      in if data = [] then sha256
         else read_chunks H (sha_update H sha256 data) (drop 65536 rest))"
  by pat_completeness auto
termination
  by (relation "measure (\<lambda>(H, sha256, rest). length rest)") auto

declare read_chunks.simps [simp del]

definition hash_audio_file :: "'h hasher \<Rightarrow> fs \<Rightarrow> string \<Rightarrow> error + string" where
  "hash_audio_file H files file_path =
     (case open_rb files file_path of
        Inl e \<Rightarrow> Inl e
      | Inr content \<Rightarrow> Inr (sha_hexdigest H (read_chunks H (sha_init H) content)))"

text \<open>Hashing the whole content with one \<^verbatim>\<open>update\<close>.\<close>

definition sha256_hexdigest :: "'h hasher \<Rightarrow> bytes \<Rightarrow> string" where
  "sha256_hexdigest H content = sha_hexdigest H (sha_update H (sha_init H) content)"

section \<open>v7\_album\_artwork: the pipeline up to the fingerprint\<close>

text \<open>
  \<^verbatim>\<open>create_album_artwork_v7\<close>, lines 148 to 162, then everything after the
  fingerprint as the parameter \<open>continue\<close>. \<open>output_dir_of\<close> is the path arithmetic of
  lines 148 to 155 (\<^verbatim>\<open>os.path\<close>). There is no \<^verbatim>\<open>try\<close> in this function.
\<close>

definition create_album_artwork_v7 ::
  "'h hasher \<Rightarrow> (string \<Rightarrow> string) \<Rightarrow> (string \<Rightarrow> fs \<Rightarrow> 'r outcome \<times> fs) \<Rightarrow>
     fs \<Rightarrow> string \<Rightarrow> 'r outcome \<times> fs" where
  "create_album_artwork_v7 H output_dir_of continue files audio_file_path =
     (case makedirs files (output_dir_of audio_file_path) of
        Inl e \<Rightarrow> (Raised e, files)
      | Inr files1 \<Rightarrow>
          (case hash_audio_file H files1 audio_file_path of
             Inl e \<Rightarrow> (Raised e, files1)
           | Inr hash_value \<Rightarrow> continue hash_value files1))"

section \<open>v7\_album\_artwork: spectrogram size, segment and time span\<close>

text \<open>Lines 53 to 66: the figure asked of the plotting library.\<close>

definition audio_duration :: "nat \<Rightarrow> nat \<Rightarrow> error + rat" where
  "audio_duration n_samples sr =
     (if sr = 0 then Inl ZeroDivisionError else Inr (of_nat n_samples / of_nat sr))"

definition figure_width :: "rat \<Rightarrow> rat" where
  "figure_width duration = min (max (duration / 4) 10) 40"

definition figure_height :: rat where
  "figure_height = 10"

definition figure_dpi :: rat where
  "figure_dpi = 100"

definition figure_request :: "rat \<Rightarrow> (rat \<times> rat) \<times> rat" where
  "figure_request duration = ((figure_width duration, figure_height), figure_dpi)"

text \<open>Lines 84 to 91: a raw image narrower than 1.5 times its height is put on a canvas
  three times as wide as it is high.\<close>

definition force_aspect :: "nat \<times> nat \<Rightarrow> nat \<times> nat" where
  "force_aspect raw_size =
     (case raw_size of (w, h) \<Rightarrow>
        if (of_nat w :: rat) < of_nat h * (3 / 2) then (h * 3, h) else (w, h))"

text \<open>Lines 99 to 119: the middle square.\<close>

definition middle_segment :: "nat \<times> nat \<Rightarrow> int \<times> int" where
  "middle_segment spec_size =
     (case spec_size of (width, height) \<Rightarrow>
        let square_size = int height;
            num_segments = max 1 (int width - square_size + 1)
        in if num_segments \<le> 1 then (0, min square_size (int width))
           else let left = (int width - square_size) div 2 in (left, left + square_size))"

text \<open>Lines 125 and 126.\<close>

definition time_span :: "int \<times> int \<Rightarrow> nat \<Rightarrow> rat \<Rightarrow> error + rat \<times> rat" where
  "time_span segment width duration =
     (case segment of (left, right) \<Rightarrow>
        if width = 0 then Inl ZeroDivisionError
        else Inr ((of_int left / of_nat width) * duration,
                  (of_int right / of_nat width) * duration))"

text \<open>
  Line 127 prints both times with \<^verbatim>\<open>:.2f\<close>: two decimals, the nearest such number,
  a tie going to the even last digit.
\<close>

definition round_half_even :: "rat \<Rightarrow> int" where
  "round_half_even x =
     (let f = \<lfloor>x\<rfloor>; r = x - of_int f
      in if r < 1 / 2 then f else if 1 / 2 < r then f + 1 else if even f then f else f + 1)"

definition format_2f :: "rat \<Rightarrow> rat" where
  "format_2f x = of_int (round_half_even (x * 100)) / 100"

text \<open>
  The part of \<^verbatim>\<open>create_improved_spectrogram\<close> after rendering: from the size of the
  rendered image and the duration to the crop box \<open>(left, 0, right, height)\<close>, the time
  span computed and the time span printed.
\<close>

definition spectrogram_segment ::
  "nat \<times> nat \<Rightarrow> rat \<Rightarrow> error + ((nat \<times> nat) \<times> (int \<times> int) \<times> (rat \<times> rat) \<times> (rat \<times> rat))" where
  "spectrogram_segment raw_size duration =
     (let spec_size = force_aspect raw_size;
          segment = middle_segment spec_size
      in case time_span segment (fst spec_size) duration of
           Inl e \<Rightarrow> Inl e
         | Inr (time_position, time_end) \<Rightarrow>
             Inr (spec_size, segment, (time_position, time_end),
                  (format_2f time_position, format_2f time_end)))"

section \<open>v7\_album\_artwork: compositing\<close>

text \<open>
  A Pillow image in mode RGBA: its size \<open>(width, height)\<close> and its pixel at \<open>x\<close>, \<open>y\<close>.
  Resampling and the source-over operator on one pixel are Pillow's; they are the
  parameters \<open>rs\<close> and \<open>src_over\<close> (\<open>src_over s d\<close> puts \<open>s\<close> over \<open>d\<close>).
\<close>

type_synonym rgba = "nat \<times> nat \<times> nat \<times> nat"

record pil_image =
  img_size :: "nat \<times> nat"
  pixel_at :: "nat \<Rightarrow> nat \<Rightarrow> rgba"

type_synonym resampler = "pil_image \<Rightarrow> nat \<times> nat \<Rightarrow> nat \<Rightarrow> nat \<Rightarrow> rgba"

definition alpha_of :: "rgba \<Rightarrow> nat" where
  "alpha_of p = (case p of (r, g, b, a) \<Rightarrow> a)"

text \<open>
  \<^verbatim>\<open>Image.resize\<close>: a copy when the size is the image's own, \<^verbatim>\<open>ValueError\<close> when the
  new width or height is 0.
\<close>

definition resize :: "resampler \<Rightarrow> pil_image \<Rightarrow> nat \<times> nat \<Rightarrow> error + pil_image" where
  "resize rs img new_size =
     (if img_size img = new_size then Inr img
      else if fst new_size = 0 \<or> snd new_size = 0 then Inl ValueError
      else Inr \<lparr>img_size = new_size, pixel_at = rs img new_size\<rparr>)"

definition putalpha :: "pil_image \<Rightarrow> nat \<Rightarrow> pil_image" where
  "putalpha img alpha =
     img\<lparr>pixel_at := (\<lambda>x y. case pixel_at img x y of (r, g, b, a) \<Rightarrow> (r, g, b, alpha))\<rparr>"

definition new_image :: "nat \<times> nat \<Rightarrow> rgba \<Rightarrow> pil_image" where
  "new_image sz color = \<lparr>img_size = sz, pixel_at = (\<lambda>x y. color)\<rparr>"

text \<open>
  The method \<^verbatim>\<open>alpha_composite(im, dest)\<close>: \<^verbatim>\<open>ValueError\<close> on a negative destination;
  otherwise the pixels of the destination box become the source over what was there.
\<close>

definition alpha_composite ::
  "(rgba \<Rightarrow> rgba \<Rightarrow> rgba) \<Rightarrow> pil_image \<Rightarrow> pil_image \<Rightarrow> int \<times> int \<Rightarrow> error + pil_image" where
  "alpha_composite src_over dst src dest =
     (case dest of (dx, dy) \<Rightarrow>
        if min dx dy < 0 then Inl ValueError
        else Inr (dst\<lparr>pixel_at := (\<lambda>x y.
               if dx \<le> int x \<and> int x < dx + int (fst (img_size src)) \<and>
                  dy \<le> int y \<and> int y < dy + int (snd (img_size src))
               then src_over (pixel_at src (x - nat dx) (y - nat dy)) (pixel_at dst x y)
               else pixel_at dst x y)\<rparr>))"

text \<open>Lines 130 to 137; the image is in mode RGBA already.\<close>

definition set_image_alpha :: "pil_image \<Rightarrow> nat \<Rightarrow> pil_image" where
  "set_image_alpha img alpha_value = putalpha img alpha_value"

text \<open>Lines 139 to 143; the default scale 0.4 is the rational 2/5.\<close>

definition resize_identicon :: "resampler \<Rightarrow> pil_image \<Rightarrow> rat \<Rightarrow> error + pil_image" where
  "resize_identicon rs identicon scale =
     (case img_size identicon of (width, height) \<Rightarrow>
        resize rs identicon (nat \<lfloor>of_nat width * scale\<rfloor>, nat \<lfloor>of_nat height * scale\<rfloor>))"

text \<open>
  Lines 175 to 202 of \<^verbatim>\<open>create_album_artwork_v7\<close>, in the order of the source. The
  result is the final image, the spectrogram layer, the identicon layer and the position
  of the identicon.
\<close>

definition composite_layers ::
  "resampler \<Rightarrow> (rgba \<Rightarrow> rgba \<Rightarrow> rgba) \<Rightarrow> pil_image \<Rightarrow> pil_image \<Rightarrow>
     error + (pil_image \<times> pil_image \<times> pil_image \<times> (int \<times> int))" where
  "composite_layers rs src_over identicon spectrogram =
     (case resize rs spectrogram (img_size identicon) of
        Inl e \<Rightarrow> Inl e
      | Inr spectrogram1 \<Rightarrow>
          let spectrogram2 = set_image_alpha spectrogram1 127
          in (case resize_identicon rs identicon (2 / 5) of
                Inl e \<Rightarrow> Inl e
              | Inr identicon1 \<Rightarrow>
                  let identicon2 = putalpha identicon1 255;
                      final_image = new_image (img_size spectrogram2) (0, 0, 0, 255)
                  in (case alpha_composite src_over final_image spectrogram2 (0, 0) of
                        Inl e \<Rightarrow> Inl e
                      | Inr final1 \<Rightarrow>
                          let position =
                                ((int (fst (img_size spectrogram2)) - int (fst (img_size identicon2))) div 2,
                                 (int (snd (img_size spectrogram2)) - int (snd (img_size identicon2))) div 2)
                          in (case alpha_composite src_over final1 identicon2 position of
                                Inl e \<Rightarrow> Inl e
                              | Inr final2 \<Rightarrow>
                                  Inr (final2, spectrogram2, identicon2, position)))))"

definition layer_sizes ::
  "error + (pil_image \<times> pil_image \<times> pil_image \<times> (int \<times> int)) \<Rightarrow>
     error + ((nat \<times> nat) \<times> (nat \<times> nat) \<times> (nat \<times> nat) \<times> (int \<times> int))" where
  "layer_sizes r =
     (case r of
        Inl e \<Rightarrow> Inl e
      | Inr (final, spectrogram, identicon, position) \<Rightarrow>
          Inr (img_size final, img_size spectrogram, img_size identicon, position))"

definition final_pixel ::
  "error + (pil_image \<times> pil_image \<times> pil_image \<times> (int \<times> int)) \<Rightarrow> nat \<Rightarrow> nat \<Rightarrow> error + rgba" where
  "final_pixel r x y =
     (case r of
        Inl e \<Rightarrow> Inl e
      | Inr (final, spectrogram, identicon, position) \<Rightarrow> Inr (pixel_at final x y))"

section \<open>Example inputs\<close>

text \<open>
  Concrete inputs for the runs below: a hasher that satisfies the contract of
  \<^verbatim>\<open>hashlib\<close> (it keeps every byte), an output directory for \<^verbatim>\<open>song.wav\<close> at
  saturation 1.0, and stand-ins for the stages that are parameters.
\<close>

definition concat_hasher :: "bytes hasher" where
  "concat_hasher = \<lparr>sha_init = [], sha_update = (@), sha_hexdigest = map char_of\<rparr>"

definition demo_output_dir :: "string \<Rightarrow> string" where
  "demo_output_dir audio_file_path = ''id_song_wav_v7_sat1.0''"

definition demo_continue :: "string \<Rightarrow> fs \<Rightarrow> string outcome \<times> fs" where
  "demo_continue hash_value files = (Returned (Some hash_value), files)"

definition demo_process :: "fs \<Rightarrow> string \<Rightarrow> string list \<times> (error + string) \<times> fs" where
  "demo_process files input_image_path = ([''Saving output files...''], Inr ''canvas'', files)"

text \<open>
  For the resize and crop stage: exact arithmetic as the rounding, a resize that has 16
  GiB for the new image at 4 bytes a pixel, and an image file \<^verbatim>\<open>wide.png\<close> of 20000 by 1
  pixels.
\<close>

definition exact :: "rat \<Rightarrow> rat" where
  "exact x = x"

definition bounded_resize :: resize_lib where
  "bounded_resize image_size new_size =
     (if 17179869184 < 4 * fst new_size * snd new_size then Inl MemoryError else Inr new_size)"

definition wide_png :: bytes where
  "wide_png = [137, 80, 78, 71]"

definition decode_wide :: "bytes \<Rightarrow> error + nat \<times> nat" where
  "decode_wide content = Inr (20000, 1)"

definition canvas_dir :: "string \<Rightarrow> string" where
  "canvas_dir input_image_path = ''wide_canvas''"

definition later_stages ::
  "(int \<times> int) \<times> (int \<times> int \<times> int \<times> int) \<times> (int \<times> int) \<Rightarrow> fs \<Rightarrow>
     string list \<times> (error + string) \<times> fs" where
  "later_stages cropped files = ([], Inr ''wide_canvas/wide_canvas_static.png'', files)"

text \<open>For the smearing of one column: a frame of 12 rows, one column and one channel.\<close>

definition column_frame :: frame where
  "column_frame =
     [[[0]], [[10]], [[20]], [[30]], [[40]], [[50]], [[60]], [[70]], [[80]], [[90]],
      [[100]], [[110]]]"

text \<open>
  For the compositing stage: nearest-neighbour resampling, the usual source-over formula
  on an opaque destination, an identicon of the size the generator is asked for, and a
  square spectrogram.
\<close>

definition nearest :: resampler where
  "nearest img new_size x y =
     pixel_at img (x * fst (img_size img) div fst new_size) (y * snd (img_size img) div snd new_size)"

definition demo_over :: "rgba \<Rightarrow> rgba \<Rightarrow> rgba" where
  "demo_over s d =
     (case s of (sr, sg, sb, sa) \<Rightarrow> case d of (dr, dg, db, da) \<Rightarrow>
        ((sr * sa + dr * (255 - sa)) div 255, (sg * sa + dg * (255 - sa)) div 255,
         (sb * sa + db * (255 - sa)) div 255, 255))"

definition demo_identicon :: pil_image where
  "demo_identicon = \<lparr>img_size = (5000, 5000), pixel_at = (\<lambda>x y. (60, 120, 180, 0))\<rparr>"

definition demo_spectrogram :: pil_image where
  "demo_spectrogram = \<lparr>img_size = (1000, 1000), pixel_at = (\<lambda>x y. (200, 100, 50, 255))\<rparr>"

section \<open>Verification of canvas\_generator\<close>

lemma floor_numeral_div_rat: "\<lfloor>(numeral a :: rat) / numeral b\<rfloor> = numeral a div numeral b"
  by (metis floor_divide_of_int_eq of_int_numeral)

subsection \<open>Row 0, shape and black frames\<close>

lemma smear_row_take1: "take (Suc 0) (smear_row y0 sh arr y) = take (Suc 0) arr"
  by (simp add: smear_row_def)

lemma smear_rows_take1: "take (Suc 0) (smear_rows ys y0 sh arr) = take (Suc 0) arr"
  by (induction ys arbitrary: arr) (simp_all add: smear_row_take1)

lemma smear_columns_take1:
  "smear_columns n strength arr g = (Inr arr', g') \<Longrightarrow> take (Suc 0) arr' = take (Suc 0) arr"
proof (induction n arbitrary: arr g)
  case 0
  then show ?case by simp
next
  case (Suc n)
  then show ?case
    by (auto split: prod.splits if_splits sum.splits simp: smear_rows_take1)
qed

lemma blend_rows_shape:
  assumes "length r1 = w" "length r2 = w"
    and "list_all (\<lambda>p. length p = c) r1" "list_all (\<lambda>p. length p = c) r2"
  shows "length (blend_rows a r1 r2) = w"
    and "list_all (\<lambda>p. length p = c) (blend_rows a r1 r2)"
proof -
  show "length (blend_rows a r1 r2) = w"
    using assms by (simp add: blend_rows_def)
  have "length (map2 (blend_sample a) p q) = c"
    if "(p, q) \<in> set (zip r1 r2)" for p q
  proof -
    from that have "p \<in> set r1" "q \<in> set r2"
      by (auto dest: set_zip_leftD set_zip_rightD)
    with assms show ?thesis by (simp add: list_all_iff)
  qed
  then show "list_all (\<lambda>p. length p = c) (blend_rows a r1 r2)"
    by (auto simp: blend_rows_def list_all_iff)
qed

lemma has_shape_row:
  "has_shape h w c arr \<Longrightarrow> y < h \<Longrightarrow>
     length (arr ! y) = w \<and> list_all (\<lambda>p. length p = c) (arr ! y)"
  by (auto simp: has_shape_def list_all_iff)

lemma has_shape_update:
  assumes "has_shape h w c arr" "length r = w" "list_all (\<lambda>p. length p = c) r"
  shows "has_shape h w c (arr[y := r])"
proof -
  have "set (arr[y := r]) \<subseteq> insert r (set arr)"
    by (rule set_update_subset_insert)
  with assms show ?thesis
    by (auto simp: has_shape_def list_all_iff)
qed

lemma smear_row_shape:
  assumes "has_shape h w c arr"
  shows "has_shape h w c (smear_row y0 sh arr y)"
proof (cases "0 < y \<and> y < h")
  case True
  then have y: "y < h" "y - 1 < h" by arith+
  let ?r = "blend_rows (smear_alpha y y0 sh) (arr ! y) (arr ! (y - 1))"
  from has_shape_row [OF assms y(1)] has_shape_row [OF assms y(2)]
  have "length ?r = w" "list_all (\<lambda>p. length p = c) ?r"
    by (auto intro: blend_rows_shape)
  with assms have "has_shape h w c (arr[y := ?r])"
    by (rule has_shape_update)
  with True show ?thesis
    by (simp add: smear_row_def)
next
  case False
  then have "smear_row y0 sh arr y = arr"
    using assms by (auto simp: smear_row_def has_shape_def list_update_beyond)
  with assms show ?thesis by simp
qed

lemma smear_rows_shape:
  "has_shape h w c arr \<Longrightarrow> has_shape h w c (smear_rows ys y0 sh arr)"
  by (induction ys arbitrary: arr) (simp_all add: smear_row_shape)

lemma smear_columns_shape:
  "smear_columns n strength arr g = (Inr arr', g') \<Longrightarrow> has_shape h w c arr \<Longrightarrow>
     has_shape h w c arr'"
proof (induction n arbitrary: arr g)
  case 0
  then show ?case by simp
next
  case (Suc n)
  then show ?case
    by (auto split: prod.splits if_splits sum.splits simp: smear_rows_shape)
qed

lemma apply_smearing_shape:
  assumes "has_shape h w c img"
  shows "has_shape h w c (fst (apply_smearing img strength g))"
proof (cases "smear_columns (frame_width img) strength img g")
  case (Pair r g')
  with assms show ?thesis
    by (cases r) (auto simp: apply_smearing_def dest: smear_columns_shape)
qed

lemma blend_sample_zero: "blend_sample a 0 0 = 0"
  by (simp add: blend_sample_def)

lemma map2_blend_black:
  "list_all (\<lambda>v. v = 0) p \<Longrightarrow> list_all (\<lambda>v. v = 0) q \<Longrightarrow>
     list_all (\<lambda>v. v = 0) (map2 (blend_sample a) p q)"
  by (induction p q rule: list_induct2') (simp_all add: blend_sample_zero)

lemma blend_rows_black:
  "list_all (list_all (\<lambda>v. v = 0)) r1 \<Longrightarrow> list_all (list_all (\<lambda>v. v = 0)) r2 \<Longrightarrow>
     list_all (list_all (\<lambda>v. v = 0)) (blend_rows a r1 r2)"
  unfolding blend_rows_def
  by (induction r1 r2 rule: list_induct2') (simp_all add: map2_blend_black)

lemma smear_row_black:
  assumes "all_black arr"
  shows "all_black (smear_row y0 sh arr y)"
proof (cases "0 < y \<and> y < length arr")
  case True
  then have "y < length arr" "y - 1 < length arr"
    by arith+
  then have "arr ! y \<in> set arr" "arr ! (y - 1) \<in> set arr"
    by simp_all
  with assms have b: "list_all (list_all (\<lambda>v. v = 0))
      (blend_rows (smear_alpha y y0 sh) (arr ! y) (arr ! (y - 1)))"
    by (intro blend_rows_black) (auto simp: all_black_def list_all_iff)
  have "set (arr[y := blend_rows (smear_alpha y y0 sh) (arr ! y) (arr ! (y - 1))])
      \<subseteq> insert (blend_rows (smear_alpha y y0 sh) (arr ! y) (arr ! (y - 1))) (set arr)"
    by (rule set_update_subset_insert)
  with assms b True show ?thesis
    unfolding smear_row_def all_black_def
    by (auto simp: list_all_iff)
next
  case False
  then have "smear_row y0 sh arr y = arr"
    by (auto simp: smear_row_def list_update_beyond)
  with assms show ?thesis by simp
qed

lemma smear_rows_black:
  "all_black arr \<Longrightarrow> all_black (smear_rows ys y0 sh arr)"
  by (induction ys arbitrary: arr) (simp_all add: smear_row_black)

lemma smear_columns_black:
  "smear_columns n strength arr g = (Inr arr', g') \<Longrightarrow> all_black arr \<Longrightarrow> all_black arr'"
proof (induction n arbitrary: arr g)
  case 0
  then show ?case by simp
next
  case (Suc n)
  then show ?case
    by (auto split: prod.splits if_splits sum.splits simp: smear_rows_black)
qed

lemma apply_smearing_black:
  assumes "all_black img"
  shows "all_black (fst (apply_smearing img strength g))"
proof (cases "smear_columns (frame_width img) strength img g")
  case (Pair r g')
  with assms show ?thesis
    by (cases r) (auto simp: apply_smearing_def dest: smear_columns_black)
qed

text \<open>
  C10. \<open>apply_smearing\<close> never modifies the topmost row of the frame: whatever the
  frame, the strength and the random choices, row 0 of the output is row 0 of the input
  (and the output has a row 0 exactly when the input has one), since only rows of index
  greater than 0 are assigned.
\<close>

theorem apply_smearing_keeps_top_row:
  "take 1 (fst (apply_smearing img strength g)) = take 1 img"
proof (cases "smear_columns (frame_width img) strength img g")
  case (Pair r g')
  show ?thesis
  proof (cases r)
    case (Inl e)
    with Pair show ?thesis by (simp add: apply_smearing_def)
  next
    case (Inr arr')
    with Pair have "take (Suc 0) arr' = take (Suc 0) img"
      using smear_columns_take1 by blast
    with Pair Inr show ?thesis by (simp add: apply_smearing_def)
  qed
qed

text \<open>
  C4. Whatever the strength and the random choices, the frame returned by
  \<open>apply_smearing\<close> has the height, width and channel count of the input frame; and
  when every sample of the input is zero (an all-black frame), every sample of the
  output is zero.
\<close>

theorem apply_smearing_preserves_shape_and_black:
  assumes "has_shape h w c img"
  shows "has_shape h w c (fst (apply_smearing img strength g)) \<and>
         (all_black img \<longrightarrow> all_black (fst (apply_smearing img strength g)))"
  using assms by (simp add: apply_smearing_shape apply_smearing_black)

theorem apply_smearing_preserves_shape_and_black_witness:
  "has_shape 12 2 3 (replicate 12 (replicate 2 (replicate 3 0))) \<and>
   all_black (replicate 12 (replicate 2 (replicate 3 0))) \<and>
   has_shape 12 2 3 (fst (apply_smearing (replicate 12 (replicate 2 (replicate 3 0))) 20 (\<lambda>n. 0))) \<and>
   all_black (fst (apply_smearing (replicate 12 (replicate 2 (replicate 3 0))) 20 (\<lambda>n. 0)))"
proof -
  have s: "has_shape 12 2 3 (replicate 12 (replicate 2 (replicate 3 0)))"
    by (simp add: has_shape_def list_all_iff)
  have b: "all_black (replicate 12 (replicate 2 (replicate 3 0)))"
    by (simp add: all_black_def list_all_iff)
  from apply_smearing_preserves_shape_and_black [OF s, of 20 "\<lambda>n. 0"] s b
  show ?thesis by blast
qed

subsection \<open>The blend weight along a streak\<close>

text \<open>
  C3, as the specification states it: the weight is 1.0 on the top row of a streak and
  0.0 on its bottom row. On a streak of 10 rows starting at row 0 the bottom row is row
  9, and its weight is 1/10, not 0.
\<close>

theorem smear_weight_bottom_counterexample:
  "\<not> (smear_alpha 0 0 10 = 1 \<and> smear_alpha 9 0 10 = 0)"
  by (simp add: smear_alpha_def)

lemma randint_bounds:
  assumes "randint a b g = (Inr v, g')"
  shows "a \<le> v \<and> v \<le> b"
proof -
  from assms have ab: "a \<le> b" and v: "v = a + int (g 0) mod (b - a + 1)"
    by (auto simp: randint_def split: if_splits)
  from ab have pos: "0 < b - a + 1" by simp
  have "0 \<le> int (g 0) mod (b - a + 1)" "int (g 0) mod (b - a + 1) < b - a + 1"
    using pos by (rule pos_mod_sign, rule pos_mod_bound)
  with v show ?thesis by linarith
qed

lemma smear_rows_append:
  "smear_rows (xs @ ys) a sh arr = smear_rows ys a sh (smear_rows xs a sh arr)"
  by (induction xs arbitrary: arr) simp_all

lemma smear_rows_length: "length (smear_rows ys a sh arr) = length arr"
  by (induction ys arbitrary: arr) (simp_all add: smear_row_def)

lemma smear_rows_run:
  assumes "a + m \<le> length arr"
  shows "(\<forall>y < length arr. y < a \<or> a + m \<le> y \<or> y = 0 \<longrightarrow>
            smear_rows [a ..< a + m] a sh arr ! y = arr ! y) \<and>
         (\<forall>d < m. 0 < a + d \<longrightarrow>
            smear_rows [a ..< a + m] a sh arr ! (a + d)
              = blend_rows (smear_alpha (a + d) a sh) (arr ! (a + d))
                  (smear_rows [a ..< a + m] a sh arr ! (a + d - 1)))"
  using assms
proof (induction m)
  case 0
  then show ?case by simp
next
  case (Suc m)
  let ?A = "smear_rows [a ..< a + m] a sh arr"
  let ?B = "smear_rows [a ..< a + Suc m] a sh arr"
  from Suc.prems have le: "a + m \<le> length arr" and lt: "a + m < length arr" by simp_all
  note IH = Suc.IH [OF le]
  have len: "length ?A = length arr" by (rule smear_rows_length)
  have B: "?B = smear_row a sh ?A (a + m)"
    by (simp add: smear_rows_append)
  have same: "?A ! (a + m) = arr ! (a + m)"
    using IH lt by simp
  show ?case
  proof (cases "0 < a + m")
    case False
    then have "?B = ?A" using B by (simp add: smear_row_def)
    moreover from False have "a = 0" "m = 0" by simp_all
    ultimately show ?thesis by simp
  next
    case True
    let ?r = "blend_rows (smear_alpha (a + m) a sh) (?A ! (a + m)) (?A ! (a + m - 1))"
    from True B have Bu: "?B = ?A[a + m := ?r]"
      by (simp add: smear_row_def)
    have nth_other: "?B ! y = ?A ! y" if "y \<noteq> a + m" for y
      using that Bu by simp
    have nth_here: "?B ! (a + m) = ?r"
      using Bu lt len by simp
    have 1: "\<forall>y < length arr. y < a \<or> a + Suc m \<le> y \<or> y = 0 \<longrightarrow> ?B ! y = arr ! y"
    proof (intro allI impI)
      fix y assume y: "y < length arr" and c: "y < a \<or> a + Suc m \<le> y \<or> y = 0"
      with True have "y \<noteq> a + m" by auto
      then have "?B ! y = ?A ! y" by (rule nth_other)
      moreover from c have "y < a \<or> a + m \<le> y \<or> y = 0" by auto
      ultimately show "?B ! y = arr ! y" using IH y by simp
    qed
    have 2: "\<forall>d < Suc m. 0 < a + d \<longrightarrow>
            ?B ! (a + d) = blend_rows (smear_alpha (a + d) a sh) (arr ! (a + d)) (?B ! (a + d - 1))"
    proof (intro allI impI)
      fix d assume d: "d < Suc m" and p: "0 < a + d"
      show "?B ! (a + d) = blend_rows (smear_alpha (a + d) a sh) (arr ! (a + d)) (?B ! (a + d - 1))"
      proof (cases "d = m")
        case True
        from p True have "a + m - 1 \<noteq> a + m" by arith
        then have "?B ! (a + m - 1) = ?A ! (a + m - 1)" by (rule nth_other)
        with nth_here same True show ?thesis by simp
      next
        case False
        with d have dm: "d < m" by simp
        then have ne: "a + d \<noteq> a + m" "a + d - 1 \<noteq> a + m" by arith+
        from ne(1) have e1: "?B ! (a + d) = ?A ! (a + d)" by (rule nth_other)
        from ne(2) have e2: "?B ! (a + d - 1) = ?A ! (a + d - 1)" by (rule nth_other)
        from IH dm p have "?A ! (a + d)
            = blend_rows (smear_alpha (a + d) a sh) (arr ! (a + d)) (?A ! (a + d - 1))"
          by blast
        with e1 e2 show ?thesis by (simp only:)
      qed
    qed
    from 1 2 show ?thesis by blast
  qed
qed


text \<open>
  C3, amended. In \<open>apply_smearing\<close>, for every smeared column the run is the
  \<open>streak_height\<close> rows from \<open>y_start\<close> on (the \<^verbatim>\<open>min\<close> of line 44 never cuts it), and
  the row at offset \<open>d\<close> in it becomes its own samples at the weight
  \<open>1 - d / streak_height\<close> blended against the row immediately above it, as that row is
  by then: the weight decays linearly from 1 on the top row of the run to
  \<open>1 / streak_height\<close>, not 0, on its bottom row. The rows outside the run, and row 0,
  stay as they were. Here \<open>arr\<close> and \<open>g\<close> are the array and the tape as the loop of line 40
  reaches the column, and the hypotheses say that the column is smeared: the draw is
  below 0.1 and neither \<^verbatim>\<open>randint\<close> raises. (Floats are read as exact rationals.)
\<close>

theorem smeared_column_weights:
  assumes "random_random g = (u, g1)" and "u < 1 / 10"
    and "randint 10 strength g1 = (Inr streak_height, g2)"
    and "randint 0 (int (frame_height arr) - streak_height) g2 = (Inr y_start, g3)"
  shows "\<exists>run arr'.
           run = streak_range y_start streak_height (frame_height arr) \<and>
           arr' = smear_rows run (nat y_start) streak_height arr \<and>
           smear_columns (Suc n) strength arr g = smear_columns n strength arr' g3 \<and>
           (frame_width arr = 1 \<longrightarrow> apply_smearing arr strength g = (arr', g3)) \<and>
           10 \<le> streak_height \<and> streak_height \<le> strength \<and>
           0 \<le> y_start \<and> y_start + streak_height \<le> int (frame_height arr) \<and>
           run = [nat y_start ..< nat y_start + nat streak_height] \<and>
           hd run = nat y_start \<and> last run = nat y_start + nat streak_height - 1 \<and>
           smear_alpha (hd run) (nat y_start) streak_height = 1 \<and>
           smear_alpha (last run) (nat y_start) streak_height = 1 / of_int streak_height \<and>
           smear_alpha (last run) (nat y_start) streak_height \<noteq> 0 \<and>
           (\<forall>d < nat streak_height.
              smear_alpha (nat y_start + d) (nat y_start) streak_height
                = 1 - of_nat d / of_int streak_height \<and>
              (0 < nat y_start + d \<longrightarrow>
                 arr' ! (nat y_start + d)
                   = blend_rows (smear_alpha (nat y_start + d) (nat y_start) streak_height)
                       (arr ! (nat y_start + d)) (arr' ! (nat y_start + d - 1)))) \<and>
           length arr' = length arr \<and>
           (\<forall>y < length arr. y \<notin> set run \<or> y = 0 \<longrightarrow> arr' ! y = arr ! y)"
proof -
  define a where "a = nat y_start"
  define m where "m = nat streak_height"
  define run where "run = streak_range y_start streak_height (frame_height arr)"
  define arr' where "arr' = smear_rows run (nat y_start) streak_height arr"
  from randint_bounds [OF assms(3)] have sh: "10 \<le> streak_height" "streak_height \<le> strength"
    by simp_all
  from randint_bounds [OF assms(4)]
  have ys: "0 \<le> y_start" "y_start + streak_height \<le> int (frame_height arr)"
    by simp_all
  have m: "0 < m" "int m = streak_height" and a: "int a = y_start"
    using sh ys by (simp_all add: m_def a_def)
  have fit: "a + m \<le> length arr"
    using ys(2) m(2) a by (simp add: frame_height_def)
  have "nat (min (y_start + streak_height) (int (frame_height arr))) = a + m"
    using ys sh by (simp add: a_def m_def min_def nat_add_distrib)
  then have run: "run = [a ..< a + m]"
    by (simp add: run_def streak_range_def a_def)
  have step: "smear_columns (Suc n) strength arr g = smear_columns n strength arr' g3" for n
    using assms by (simp add: arr'_def run_def)
  have one: "apply_smearing arr strength g = (arr', g3)" if "frame_width arr = 1"
    using that step [of 0] by (simp add: apply_smearing_def)
  have hd: "hd run = a" and last: "last run = a + m - 1"
    using m(1) run by (simp_all add: hd_upt last_upt)
  have "(of_int (int m) :: rat) = of_nat m"
    by (rule of_int_of_nat_eq)
  then have shr: "(of_int streak_height :: rat) = of_nat m" "(0::rat) < of_nat m"
    using m by simp_all
  have top: "smear_alpha (hd run) a streak_height = 1"
    by (simp add: hd smear_alpha_def)
  have "a + m - 1 - a = m - 1" by simp
  moreover have "(of_nat (m - 1) :: rat) = of_nat m - 1"
    using m(1) by (simp add: of_nat_diff)
  ultimately have bottom: "smear_alpha (last run) a streak_height = 1 / of_int streak_height"
    using shr by (simp add: last smear_alpha_def field_simps)
  then have nz: "smear_alpha (last run) a streak_height \<noteq> 0"
    using shr by simp
  have w: "smear_alpha (a + d) a streak_height = 1 - of_nat d / of_int streak_height" for d
    by (simp add: smear_alpha_def)
  from smear_rows_run [OF fit, of streak_height]
  have rows: "\<forall>d < m. 0 < a + d \<longrightarrow>
            arr' ! (a + d) = blend_rows (smear_alpha (a + d) a streak_height) (arr ! (a + d))
                  (arr' ! (a + d - 1))"
    and rest: "\<forall>y < length arr. y < a \<or> a + m \<le> y \<or> y = 0 \<longrightarrow> arr' ! y = arr ! y"
    by (simp_all add: arr'_def run a_def [symmetric])
  have len: "length arr' = length arr"
    by (simp add: arr'_def smear_rows_length)
  have out: "\<forall>y < length arr. y \<notin> set run \<or> y = 0 \<longrightarrow> arr' ! y = arr ! y"
    using rest run by auto
  have both: "\<forall>d < m. smear_alpha (a + d) a streak_height = 1 - of_nat d / of_int streak_height \<and>
      (0 < a + d \<longrightarrow>
         arr' ! (a + d) = blend_rows (smear_alpha (a + d) a streak_height) (arr ! (a + d))
                  (arr' ! (a + d - 1)))"
    using w rows by simp
  show ?thesis
    using step one sh ys run hd last top bottom nz both len out
    unfolding a_def m_def run_def [symmetric] arr'_def [symmetric]
    by (intro exI [of _ run] exI [of _ arr']) (simp add: run_def arr'_def)
qed


theorem smeared_column_weights_witness:
  "random_random (\<lambda>n. 0) = (0, \<lambda>n. 0) \<and> (0::rat) < 1 / 10 \<and>
   randint 10 20 (\<lambda>n. 0) = (Inr 10, \<lambda>n. 0) \<and>
   randint 0 (int (frame_height column_frame) - 10) (\<lambda>n. 0) = (Inr 0, \<lambda>n. 0) \<and>
   frame_width column_frame = 1 \<and>
   (\<exists>run arr'.
      run = streak_range 0 10 (frame_height column_frame) \<and>
      arr' = smear_rows run (nat 0) 10 column_frame \<and>
      apply_smearing column_frame 20 (\<lambda>n. 0) = (arr', \<lambda>n. 0) \<and>
      run = [nat 0 ..< nat 0 + nat 10] \<and>
      hd run = nat 0 \<and> last run = nat 0 + nat 10 - 1 \<and>
      smear_alpha (hd run) (nat 0) 10 = 1 \<and>
      smear_alpha (last run) (nat 0) 10 = 1 / of_int 10 \<and>
      smear_alpha (last run) (nat 0) 10 \<noteq> 0 \<and>
      length arr' = length column_frame)"
proof -
  have h1: "random_random (\<lambda>n. 0) = (0, \<lambda>n. 0)"
    by (simp add: random_random_def comp_def)
  have h2: "(0::rat) < 1 / 10" by simp
  have h3: "randint 10 20 (\<lambda>n. 0) = (Inr 10, \<lambda>n. 0)"
    by (simp add: randint_def comp_def)
  have h4: "randint 0 (int (frame_height column_frame) - 10) (\<lambda>n. 0) = (Inr 0, \<lambda>n. 0)"
    by (simp add: randint_def comp_def frame_height_def column_frame_def)
  have h5: "frame_width column_frame = 1"
    by (simp add: frame_width_def column_frame_def)
  from smeared_column_weights [OF h1 h2 h3 h4, of 0] h5
  have "\<exists>run arr'.
      run = streak_range 0 10 (frame_height column_frame) \<and>
      arr' = smear_rows run (nat 0) 10 column_frame \<and>
      apply_smearing column_frame 20 (\<lambda>n. 0) = (arr', \<lambda>n. 0) \<and>
      run = [nat 0 ..< nat 0 + nat 10] \<and>
      hd run = nat 0 \<and> last run = nat 0 + nat 10 - 1 \<and>
      smear_alpha (hd run) (nat 0) 10 = 1 \<and>
      smear_alpha (last run) (nat 0) 10 = 1 / of_int 10 \<and>
      smear_alpha (last run) (nat 0) 10 \<noteq> 0 \<and>
      length arr' = length column_frame"
    by blast
  with h1 h2 h3 h4 h5 show ?thesis by blast
qed

text \<open>
  A run on a frame of 12 rows, one column and one channel, on the tape of zeros: the
  column is smeared, the streak has 10 rows and starts at row 0. Row 0 is skipped, and
  row 9, the bottom of the streak, is a tenth of its own 90 plus nine tenths of the 60
  above it.
\<close>

lemma apply_smearing_example:
  "fst (apply_smearing
          [[[0]], [[10]], [[20]], [[30]], [[40]], [[50]], [[60]], [[70]], [[80]], [[90]],
           [[100]], [[110]]]
          20 (\<lambda>n. 0))
     = [[[0]], [[9]], [[17]], [[26]], [[34]], [[42]], [[49]], [[55]], [[60]], [[63]],
        [[100]], [[110]]]"
  by (simp add: apply_smearing_def frame_width_def frame_height_def random_random_def
      randint_def streak_range_def smear_row_def smear_alpha_def blend_rows_def
      blend_sample_def upt_rec floor_numeral_div_rat)

subsection \<open>Crossfade synthesis\<close>

lemma map_const_replicate:
  "\<forall>x\<in>set xs. f x = v \<Longrightarrow> map f xs = replicate (length xs) v"
  by (induction xs) simp_all

lemma has_shape_lengths:
  assumes "has_shape h w c arr"
  shows "map (map length) arr = replicate h (replicate w c)"
proof -
  have "map length r = replicate w c" if "r \<in> set arr" for r
  proof -
    from that assms have "length r = w" "\<forall>p\<in>set r. length p = c"
      by (auto simp: has_shape_def list_all_iff)
    then show ?thesis
      using map_const_replicate [of r length c] by simp
  qed
  then have "map (map length) arr = replicate (length arr) (replicate w c)"
    by (intro map_const_replicate) simp
  with assms show ?thesis by (simp add: has_shape_def)
qed

lemma map2_row_pixels:
  "list_all (\<lambda>p. length p = c) ra \<Longrightarrow> list_all (\<lambda>p. length p = c) rb \<Longrightarrow>
     list_all (\<lambda>p. length p = c) (map2 (map2 f) ra rb)"
  by (induction ra rb rule: list_induct2') simp_all

lemma map2_frame_rows:
  "list_all (\<lambda>r. length r = w \<and> list_all (\<lambda>p. length p = c) r) a \<Longrightarrow>
   list_all (\<lambda>r. length r = w \<and> list_all (\<lambda>p. length p = c) r) b \<Longrightarrow>
     list_all (\<lambda>r. length r = w \<and> list_all (\<lambda>p. length p = c) r) (map2 (map2 (map2 f)) a b)"
  by (induction a b rule: list_induct2') (simp_all add: map2_row_pixels)

lemma map2_frames_shape:
  assumes "has_shape h w c a" "has_shape h w c b"
  shows "has_shape h w c (map2 (map2 (map2 f)) a b)"
  using assms by (simp add: has_shape_def map2_frame_rows)

lemma blend_images_shape:
  assumes "has_shape h w c a" "has_shape h w c b"
  shows "\<exists>t. blend_images a b alpha = Inr t \<and> has_shape h w c t"
  using assms by (simp add: blend_images_def has_shape_lengths map2_frames_shape)

lemma crossfade_transitions_run:
  assumes "has_shape h w c cur" "has_shape h w c nxt"
  shows "\<exists>ts g'. crossfade_transitions cur nxt k js acc g = (Inr (acc @ ts), g') \<and>
           length ts = length js \<and>
           (\<forall>n < length js. \<exists>b g3.
              blend_images cur nxt (transition_alpha (js ! n) k) = Inr b \<and>
              ts ! n = fst (apply_smearing b 30 g3))"
proof (induction js arbitrary: acc g)
  case Nil
  then show ?case by simp
next
  case (Cons j js)
  from blend_images_shape [OF assms] obtain b where
    b: "blend_images cur nxt (transition_alpha j k) = Inr b" by blast
  obtain t' g1 where s: "apply_smearing b 30 g = (t', g1)"
    by (cases "apply_smearing b 30 g")
  from Cons.IH [of "acc @ [t']" g1] obtain ts g' where
    run: "crossfade_transitions cur nxt k js (acc @ [t']) g1 = (Inr ((acc @ [t']) @ ts), g')"
    and len: "length ts = length js"
    and each: "\<forall>n < length js. \<exists>b g3.
              blend_images cur nxt (transition_alpha (js ! n) k) = Inr b \<and>
              ts ! n = fst (apply_smearing b 30 g3)"
    by blast
  have 1: "crossfade_transitions cur nxt k (j # js) acc g = (Inr (acc @ (t' # ts)), g')"
    using b s run by simp
  have 2: "length (t' # ts) = length (j # js)"
    using len by simp
  have 3: "\<exists>b g3. blend_images cur nxt (transition_alpha ((j # js) ! n) k) = Inr b \<and>
              (t' # ts) ! n = fst (apply_smearing b 30 g3)"
    if "n < length (j # js)" for n
  proof (cases n)
    case 0
    with b s show ?thesis by (metis fst_conv nth_Cons_0)
  next
    case (Suc m)
    with that each show ?thesis by simp
  qed
  from 1 2 3 show ?case by blast
qed

lemma crossfade_loop_run:
  assumes "list_all (has_shape h w c) fs" and "\<forall>i\<in>set is. i < length fs"
  shows "\<exists>segs g'. crossfade_loop fs k is acc g = (Inr (acc @ concat segs), g') \<and>
           length segs = length is \<and>
           (\<forall>n < length is. crossfade_segment fs k (is ! n) (segs ! n))"
  using assms(2)
proof (induction "is" arbitrary: acc g)
  case Nil
  then show ?case by simp
next
  case (Cons i "is")
  then have i: "i < length fs" and rest: "\<forall>i\<in>set is. i < length fs"
    by simp_all
  then have i': "(i + 1) mod length fs < length fs"
    by (intro mod_less_divisor) auto
  obtain cur g1 where c: "apply_smearing (fs ! i) 40 g = (cur, g1)"
    by (cases "apply_smearing (fs ! i) 40 g")
  obtain nxt g2 where n: "apply_smearing (fs ! ((i + 1) mod length fs)) 40 g1 = (nxt, g2)"
    by (cases "apply_smearing (fs ! ((i + 1) mod length fs)) 40 g1")
  from assms(1) i i' have "has_shape h w c (fs ! i)" "has_shape h w c (fs ! ((i + 1) mod length fs))"
    by (simp_all add: list_all_length)
  then have "has_shape h w c (fst (apply_smearing (fs ! i) 40 g))"
    "has_shape h w c (fst (apply_smearing (fs ! ((i + 1) mod length fs)) 40 g1))"
    by (simp_all add: apply_smearing_shape)
  with c n have sc: "has_shape h w c cur" and sn: "has_shape h w c nxt"
    by simp_all
  from crossfade_transitions_run [OF sc sn, of k "[0 ..< nat k]" "acc @ [cur]" g2]
  obtain ts g3 where
    t: "crossfade_transitions cur nxt k [0 ..< nat k] (acc @ [cur]) g2 = (Inr ((acc @ [cur]) @ ts), g3)"
    and tl: "length ts = nat k"
    and te: "\<forall>j < nat k. \<exists>b g3.
              blend_images cur nxt (transition_alpha j k) = Inr b \<and>
              ts ! j = fst (apply_smearing b 30 g3)"
    by auto
  from Cons.IH [OF rest, of "(acc @ [cur]) @ ts" g3] obtain segs g' where
    run: "crossfade_loop fs k is ((acc @ [cur]) @ ts) g3 = (Inr (((acc @ [cur]) @ ts) @ concat segs), g')"
    and len: "length segs = length is"
    and each: "\<forall>n < length is. crossfade_segment fs k (is ! n) (segs ! n)"
    by blast
  have seg: "crossfade_segment fs k i (cur # ts)"
    unfolding crossfade_segment_def
  proof (intro exI conjI)
    show "cur # ts = fst (apply_smearing (fs ! i) 40 g) # ts"
      using c by simp
    show "length ts = nat k" by (rule tl)
    show "\<forall>j<nat k. \<exists>b g3.
       blend_images (fst (apply_smearing (fs ! i) 40 g))
         (fst (apply_smearing (fs ! ((i + 1) mod length fs)) 40 g1))
         ((of_nat j + 1) / (of_int k + 1)) = Inr b \<and>
       ts ! j = fst (apply_smearing b 30 g3)"
      using te c n by (simp add: transition_alpha_def)
  qed
  have 1: "crossfade_loop fs k (i # is) acc g = (Inr (acc @ concat ((cur # ts) # segs)), g')"
    using c n t run by simp
  have 2: "length ((cur # ts) # segs) = length (i # is)"
    using len by simp
  have 3: "crossfade_segment fs k ((i # is) ! m) (((cur # ts) # segs) ! m)"
    if "m < length (i # is)" for m
    using that seg each by (cases m) simp_all
  from 1 2 3 show ?case by blast
qed

lemma length_concat_uniform:
  "\<forall>s\<in>set segs. length s = m \<Longrightarrow> length (concat segs) = length segs * m"
  by (induction segs) simp_all

lemma crossfade_segment_length:
  "crossfade_segment fs k i seg \<Longrightarrow> length seg = nat k + 1"
  by (auto simp: crossfade_segment_def)

text \<open>
  C1. For a sequence of \<open>L\<close> frames that share one shape and a transition count
  \<open>k \<ge> 0\<close>, \<open>create_crossfade_frames\<close> returns, and what it returns is \<open>L\<close> segments of
  \<open>k + 1\<close> frames each, \<open>L * (k + 1)\<close> frames in all. The segment of frame \<open>i\<close> is the
  smeared frame \<open>i\<close> followed, for each \<open>j < k\<close>, by the smeared blend of the smeared
  frame \<open>i\<close> and the smeared frame \<open>(i + 1) mod L\<close> at the weight \<open>(j + 1) / (k + 1)\<close>. The
  last segment blends the last frame toward the first one at these same weights.
\<close>

theorem create_crossfade_frames_length_and_alpha:
  assumes "0 \<le> k" and "list_all (has_shape h w c) glitch_frames"
  shows "\<exists>segs g'.
           create_crossfade_frames glitch_frames k g = (Inr (concat segs), g') \<and>
           int (length (concat segs)) = int (length glitch_frames) * (k + 1) \<and>
           length segs = length glitch_frames \<and>
           (\<forall>i < length glitch_frames. crossfade_segment glitch_frames k i (segs ! i)) \<and>
           (glitch_frames \<noteq> [] \<longrightarrow>
              (\<exists>g1 g2 ts.
                 last segs = fst (apply_smearing (last glitch_frames) 40 g1) # ts \<and>
                 length ts = nat k \<and>
                 (\<forall>j < nat k. \<exists>b g3.
                    blend_images (fst (apply_smearing (last glitch_frames) 40 g1))
                      (fst (apply_smearing (hd glitch_frames) 40 g2))
                      ((of_nat j + 1) / (of_int k + 1)) = Inr b \<and>
                    ts ! j = fst (apply_smearing b 30 g3))))"
proof -
  let ?L = "length glitch_frames"
  have "\<forall>i\<in>set [0 ..< ?L]. i < ?L" by simp
  from crossfade_loop_run [OF assms(2) this, of k "[]" g] obtain segs g' where
    run: "create_crossfade_frames glitch_frames k g = (Inr (concat segs), g')"
    and len: "length segs = ?L"
    and each: "\<forall>i < ?L. crossfade_segment glitch_frames k i (segs ! i)"
    by (auto simp: create_crossfade_frames_def)
  have "\<forall>s\<in>set segs. length s = nat k + 1"
  proof
    fix s assume "s \<in> set segs"
    then obtain i where "i < length segs" "s = segs ! i"
      by (auto simp: in_set_conv_nth)
    with len each have "crossfade_segment glitch_frames k i s"
      by simp
    then show "length s = nat k + 1"
      by (rule crossfade_segment_length)
  qed
  then have "length (concat segs) = length segs * (nat k + 1)"
    by (rule length_concat_uniform)
  with len assms(1) have total: "int (length (concat segs)) = int ?L * (k + 1)"
    by (simp add: algebra_simps)
  have wrap: "\<exists>g1 g2 ts.
                 last segs = fst (apply_smearing (last glitch_frames) 40 g1) # ts \<and>
                 length ts = nat k \<and>
                 (\<forall>j < nat k. \<exists>b g3.
                    blend_images (fst (apply_smearing (last glitch_frames) 40 g1))
                      (fst (apply_smearing (hd glitch_frames) 40 g2))
                      ((of_nat j + 1) / (of_int k + 1)) = Inr b \<and>
                    ts ! j = fst (apply_smearing b 30 g3))"
    if ne: "glitch_frames \<noteq> []"
  proof -
    from ne have L: "?L - 1 < ?L" by simp
    from ne len have "segs \<noteq> []" by auto
    with len have ls: "last segs = segs ! (?L - 1)"
      by (simp add: last_conv_nth)
    from ne have lf: "last glitch_frames = glitch_frames ! (?L - 1)"
      by (simp add: last_conv_nth)
    from ne have hf: "hd glitch_frames = glitch_frames ! ((?L - 1 + 1) mod ?L)"
      by (simp add: hd_conv_nth)
    from each L have "crossfade_segment glitch_frames k (?L - 1) (segs ! (?L - 1))"
      by blast
    then show ?thesis
      unfolding crossfade_segment_def ls lf hf .
  qed
  from run total len each wrap show ?thesis by blast
qed

theorem create_crossfade_frames_length_and_alpha_witness:
  "(0::int) \<le> 1 \<and> list_all (has_shape 1 1 1) [[[[10]]], [[[250]]]] \<and>
   [[[[10]]], [[[250::nat]]]] \<noteq> [] \<and>
   (\<exists>segs g'.
      create_crossfade_frames [[[[10]]], [[[250]]]] 1 (\<lambda>n. 4503599627370496)
        = (Inr (concat segs), g') \<and>
      int (length (concat segs)) = int (length [[[[10]]], [[[250::nat]]]]) * (1 + 1) \<and>
      length segs = length [[[[10]]], [[[250::nat]]]] \<and>
      (\<forall>i < length [[[[10]]], [[[250::nat]]]].
         crossfade_segment [[[[10]]], [[[250]]]] 1 i (segs ! i)))"
proof -
  have h1: "(0::int) \<le> 1" by simp
  have h2: "list_all (has_shape 1 1 1) [[[[10]]], [[[250]]]]"
    by (simp add: has_shape_def)
  have h3: "[[[[10]]], [[[250::nat]]]] \<noteq> []" by simp
  from create_crossfade_frames_length_and_alpha [OF h1 h2, of "\<lambda>n. 4503599627370496"] h1 h2 h3
  show ?thesis by blast
qed

text \<open>
  A run on two frames of one pixel with \<open>k = 1\<close>, on a tape that never smears: the
  transition after the last frame is the half-way blend toward the first frame.
\<close>

lemma create_crossfade_frames_example:
  "fst (create_crossfade_frames [[[[10]]], [[[250]]]] 1 (\<lambda>n. 4503599627370496))
     = Inr [[[[10]]], [[[130]]], [[[250]]], [[[130]]]]"
  by (simp add: create_crossfade_frames_def apply_smearing_def frame_width_def
      random_random_def blend_images_def transition_alpha_def blend_px_def upt_rec)

subsection \<open>Aspect-fit resize and crop\<close>

text \<open>
  C2, as the specification states it: for a source image of any dimensions the stage
  produces an image of exactly 720 by 1280 pixels. An image of 20000 by 1 pixels is to be
  resized to 25600000 by 1280, 131 GB at 4 bytes a pixel; the resize raises
  \<^verbatim>\<open>MemoryError\<close>, no image is produced, and \<open>create_spotify_canvas\<close> returns \<^verbatim>\<open>None\<close>.
\<close>

theorem resize_failure_counterexample:
  "fit_and_crop bounded_resize exact (20000, 1) = Inl MemoryError \<and>
   create_spotify_canvas (canvas_process bounded_resize exact canvas_dir decode_wide later_stages)
       [''wide.png'' \<mapsto> File wide_png] ''wide.png''
     = ([''Error processing image''], Returned None,
        [''wide.png'' \<mapsto> File wide_png, ''wide_canvas'' \<mapsto> Dir])"
  by (simp add: fit_and_crop_def resized_size_def exact_def bounded_resize_def
      TARGET_WIDTH_def TARGET_HEIGHT_def create_spotify_canvas_def path_exists_def
      canvas_process_def makedirs_def open_rb_def canvas_dir_def decode_wide_def)

lemma double_rounding_int:
  assumes "double_rounding rnd" "\<bar>m\<bar> \<le> 2 ^ 53"
  shows "rnd (of_int m) = of_int m"
proof -
  from assms have "rnd (of_int m / 2 ^ 0) = of_int m / 2 ^ 0"
    unfolding double_rounding_def by blast
  then show ?thesis by simp
qed

lemma double_rounding_mono:
  "double_rounding rnd \<Longrightarrow> x \<le> y \<Longrightarrow> rnd x \<le> rnd y"
  by (simp add: double_rounding_def)

lemma double_rounding_canvas_aspect:
  assumes "double_rounding rnd"
  shows "rnd (of_int TARGET_WIDTH / of_int TARGET_HEIGHT) = 9 / 16"
proof -
  have "\<bar>9::int\<bar> \<le> 2 ^ 53" "(4::nat) \<le> 1000" by simp_all
  with assms have "rnd (of_int 9 / 2 ^ 4) = of_int 9 / 2 ^ 4"
    unfolding double_rounding_def by blast
  then show ?thesis by (simp add: TARGET_WIDTH_def TARGET_HEIGHT_def)
qed

lemma double_rounding_aspect_positive:
  assumes "double_rounding rnd" "0 < w" "0 < h" "h < 2 ^ 31"
  shows "0 < rnd (of_nat w / of_nat h)"
proof -
  have "\<bar>1::int\<bar> \<le> 2 ^ 53" "(31::nat) \<le> 1000" by simp_all
  with assms(1) have e: "rnd (of_int 1 / 2 ^ 31) = of_int 1 / 2 ^ 31"
    unfolding double_rounding_def by blast
  have W: "(1::rat) \<le> of_nat w" using assms(2) by simp
  have H: "(0::rat) < of_nat h" using assms(3) by simp
  from assms(4) have "(of_nat h :: rat) < of_nat (2 ^ 31)"
    by (simp only: of_nat_less_iff)
  then have H2: "(of_nat h :: rat) \<le> 2 ^ 31" by simp
  have "(1::rat) / 2 ^ 31 \<le> 1 / of_nat h"
    using H H2 by (simp add: frac_le)
  also have "\<dots> \<le> of_nat w / of_nat h"
    using W H by (simp add: divide_right_mono)
  finally have "rnd (1 / 2 ^ 31) \<le> rnd (of_nat w / of_nat h)"
    using assms(1) by (simp add: double_rounding_mono)
  with e show ?thesis by simp
qed

lemma resized_covers:
  assumes "double_rounding rnd" "0 < w" "0 < h" "h < 2 ^ 31"
  shows "\<exists>nw nh. resized_size rnd (w, h) = Inr (nw, nh) \<and>
           TARGET_WIDTH \<le> nw \<and> TARGET_HEIGHT \<le> nh"
proof -
  define a where "a = rnd (of_nat w / of_nat h)"
  have pos: "0 < a"
    unfolding a_def using assms by (rule double_rounding_aspect_positive)
  have c: "rnd (of_int TARGET_WIDTH / of_int TARGET_HEIGHT) = 9 / 16"
    using assms(1) by (rule double_rounding_canvas_aspect)
  have r720: "rnd 720 = 720" and r1280: "rnd 1280 = 1280"
    using double_rounding_int [OF assms(1), of 720] double_rounding_int [OF assms(1), of 1280]
    by simp_all
  show ?thesis
  proof (cases "a > 9 / 16")
    case True
    then have "(720::rat) \<le> 1280 * a" by simp
    then have "rnd 720 \<le> rnd (1280 * a)"
      using assms(1) by (simp add: double_rounding_mono)
    then have "(720::int) \<le> \<lfloor>rnd (1280 * a)\<rfloor>"
      using r720 by (simp add: le_floor_iff)
    with True assms(3) c show ?thesis
      by (simp add: resized_size_def TARGET_WIDTH_def TARGET_HEIGHT_def a_def [symmetric])
  next
    case False
    then have "a \<le> 9 / 16" by simp
    with pos have "(1280::rat) * a \<le> 720" by simp
    with pos have "(1280::rat) \<le> 720 / a"
      by (simp add: pos_le_divide_eq)
    then have "rnd 1280 \<le> rnd (720 / a)"
      using assms(1) by (simp add: double_rounding_mono)
    then have "(1280::int) \<le> \<lfloor>rnd (720 / a)\<rfloor>"
      using r1280 by (simp add: le_floor_iff)
    with False pos assms(3) c show ?thesis
      by (simp add: resized_size_def TARGET_WIDTH_def TARGET_HEIGHT_def a_def [symmetric])
  qed
qed

lemma center_box_inside:
  assumes "TARGET_WIDTH \<le> nw" "TARGET_HEIGHT \<le> nh"
  shows "\<exists>left upper right lower.
           center_box (nw, nh) = (left, upper, right, lower) \<and>
           0 \<le> left \<and> left \<le> right \<and> right \<le> nw \<and>
           0 \<le> upper \<and> upper \<le> lower \<and> lower \<le> nh \<and>
           crop_size (left, upper, right, lower) = (TARGET_WIDTH, TARGET_HEIGHT)"
proof -
  from assms have "(nw - TARGET_WIDTH) div 2 \<le> nw - TARGET_WIDTH"
    and "(nh - TARGET_HEIGHT) div 2 \<le> nh - TARGET_HEIGHT"
    and "0 \<le> (nw - TARGET_WIDTH) div 2" and "0 \<le> (nh - TARGET_HEIGHT) div 2"
    by simp_all
  then show ?thesis
    by (simp add: center_box_def crop_size_def Let_def TARGET_WIDTH_def TARGET_HEIGHT_def)
qed

text \<open>
  C2, amended. For every source image (its width and height positive, as those of an
  image are, and below \<open>2^31\<close>, as Pillow's are), the size asked of the resize covers
  \<open>TARGET_WIDTH\<close> by \<open>TARGET_HEIGHT\<close>, 720 by 1280; when the resize returns, the cropped
  image is of exactly that size and the crop box \<open>(left, upper, right, lower)\<close> lies within
  the resized image; when the resize raises, so does the stage, and nothing is produced.
  This holds for the rounding of doubles, not only in exact arithmetic.
\<close>

theorem fit_and_crop_exact_when_resized:
  assumes "double_rounding rnd" and "resize_contract resize_lib"
    and "0 < w" and "0 < h" and "h < 2 ^ 31"
  shows "\<exists>new_width new_height.
           resized_size rnd (w, h) = Inr (new_width, new_height) \<and>
           TARGET_WIDTH \<le> new_width \<and> TARGET_HEIGHT \<le> new_height \<and>
           (case resize_lib (w, h) (new_width, new_height) of
              Inl e \<Rightarrow> fit_and_crop resize_lib rnd (w, h) = Inl e
            | Inr resized \<Rightarrow>
                \<exists>left upper right lower.
                  fit_and_crop resize_lib rnd (w, h)
                    = Inr ((new_width, new_height), (left, upper, right, lower),
                           (TARGET_WIDTH, TARGET_HEIGHT)) \<and>
                  TARGET_WIDTH = 720 \<and> TARGET_HEIGHT = 1280 \<and>
                  0 \<le> left \<and> left \<le> right \<and> right \<le> new_width \<and>
                  0 \<le> upper \<and> upper \<le> lower \<and> lower \<le> new_height)"
proof -
  from resized_covers [OF assms(1,3,4,5)] obtain nw nh where
    r: "resized_size rnd (w, h) = Inr (nw, nh)" and c: "TARGET_WIDTH \<le> nw" "TARGET_HEIGHT \<le> nh"
    by blast
  from center_box_inside [OF c] obtain left upper right lower where
    b: "center_box (nw, nh) = (left, upper, right, lower)"
    and i: "0 \<le> left" "left \<le> right" "right \<le> nw" "0 \<le> upper" "upper \<le> lower" "lower \<le> nh"
    and s: "crop_size (left, upper, right, lower) = (TARGET_WIDTH, TARGET_HEIGHT)"
    by blast
  have t: "TARGET_WIDTH = 720" "TARGET_HEIGHT = 1280"
    by (simp_all add: TARGET_WIDTH_def TARGET_HEIGHT_def)
  have "case resize_lib (w, h) (nw, nh) of
              Inl e \<Rightarrow> fit_and_crop resize_lib rnd (w, h) = Inl e
            | Inr resized \<Rightarrow>
                \<exists>left upper right lower.
                  fit_and_crop resize_lib rnd (w, h)
                    = Inr ((nw, nh), (left, upper, right, lower),
                           (TARGET_WIDTH, TARGET_HEIGHT)) \<and>
                  TARGET_WIDTH = 720 \<and> TARGET_HEIGHT = 1280 \<and>
                  0 \<le> left \<and> left \<le> right \<and> right \<le> nw \<and>
                  0 \<le> upper \<and> upper \<le> lower \<and> lower \<le> nh"
  proof (cases "resize_lib (w, h) (nw, nh)")
    case (Inl e)
    with r show ?thesis by (simp add: fit_and_crop_def)
  next
    case (Inr resized)
    with assms(2) have "resized = (nw, nh)"
      unfolding resize_contract_def by blast
    with Inr r b s have "fit_and_crop resize_lib rnd (w, h)
        = Inr ((nw, nh), (left, upper, right, lower), (TARGET_WIDTH, TARGET_HEIGHT))"
      by (simp add: fit_and_crop_def)
    with Inr i t show ?thesis by auto
  qed
  with r c show ?thesis by blast
qed

theorem fit_and_crop_exact_when_resized_witness:
  "double_rounding exact \<and> resize_contract bounded_resize \<and>
   (0::nat) < 1000 \<and> (1000::nat) < 2 ^ 31 \<and>
   bounded_resize (1000, 1000) (1280, 1280) = Inr (1280, 1280) \<and>
   resized_size exact (1000, 1000) = Inr (1280, 1280) \<and>
   fit_and_crop bounded_resize exact (1000, 1000)
     = Inr ((1280, 1280), (280, 0, 1000, 1280), (720, 1280))"
proof -
  have d: "double_rounding exact"
    by (simp add: double_rounding_def exact_def)
  have c: "resize_contract bounded_resize"
    by (auto simp: resize_contract_def bounded_resize_def split: if_splits)
  have p: "(0::nat) < 1000" and q: "(1000::nat) < 2 ^ 31" by simp_all
  have b: "bounded_resize (1000, 1000) (1280, 1280) = Inr (1280, 1280)"
    by (simp add: bounded_resize_def)
  have s: "resized_size exact (1000, 1000) = Inr (1280, 1280)"
    by (simp add: resized_size_def exact_def TARGET_WIDTH_def TARGET_HEIGHT_def)
  from fit_and_crop_exact_when_resized [OF d c p p q] s b
  obtain left upper right lower where
    f: "fit_and_crop bounded_resize exact (1000, 1000)
          = Inr ((1280, 1280), (left, upper, right, lower), (TARGET_WIDTH, TARGET_HEIGHT))"
    by auto
  have "fit_and_crop bounded_resize exact (1000, 1000)
     = Inr ((1280, 1280), (280, 0, 1000, 1280), (720, 1280))"
    by (simp add: fit_and_crop_def s b center_box_def crop_size_def
        TARGET_WIDTH_def TARGET_HEIGHT_def)
  with f d c p q b s show ?thesis by simp
qed

section \<open>Verification of v7\_album\_artwork\<close>

subsection \<open>Fingerprint\<close>

lemma read_chunks_whole:
  "hashlib_contract H \<Longrightarrow> read_chunks H st rest = sha_update H st rest"
proof (induction H st rest rule: read_chunks.induct)
  case (1 H st rest)
  then have c: "hashlib_contract H" by simp
  show ?case
  proof (cases "take 65536 rest = []")
    case True
    then have "rest = []" by simp
    then have "read_chunks H st rest = st"
      by (subst read_chunks.simps) simp
    with c \<open>rest = []\<close> show ?thesis
      by (simp add: hashlib_contract_def)
  next
    case False
    have "read_chunks H st rest
        = read_chunks H (sha_update H st (take 65536 rest)) (drop 65536 rest)"
      using False by (subst read_chunks.simps) (simp add: Let_def)
    also have "\<dots> = sha_update H (sha_update H st (take 65536 rest)) (drop 65536 rest)"
      using "1.IH" [OF refl False c] .
    also have "\<dots> = sha_update H st (take 65536 rest @ drop 65536 rest)"
      using c by (simp add: hashlib_contract_def)
    finally show ?thesis by simp
  qed
qed

text \<open>
  C7. Given the contract of \<^verbatim>\<open>hashlib\<close>, \<open>hash_audio_file\<close> on an existing file returns
  the digest of the file's whole content: reading in blocks of 65536 bytes gives what one
  \<^verbatim>\<open>update\<close> with the whole content gives. Hence two files of identical content have
  identical fingerprints.
\<close>

theorem hash_audio_file_is_digest_of_content:
  assumes "hashlib_contract H" and "files file_path = Some (File content)"
  shows "hash_audio_file H files file_path = Inr (sha256_hexdigest H content) \<and>
         (files' file_path' = Some (File content) \<longrightarrow>
            hash_audio_file H files' file_path' = hash_audio_file H files file_path)"
  using assms by (simp add: hash_audio_file_def open_rb_def sha256_hexdigest_def read_chunks_whole)

theorem hash_audio_file_is_digest_of_content_witness:
  "hashlib_contract concat_hasher \<and>
   [''a.wav'' \<mapsto> File [82, 73, 70, 70]] ''a.wav'' = Some (File [82, 73, 70, 70]) \<and>
   [''b.wav'' \<mapsto> File [82, 73, 70, 70]] ''b.wav'' = Some (File [82, 73, 70, 70]) \<and>
   hash_audio_file concat_hasher [''a.wav'' \<mapsto> File [82, 73, 70, 70]] ''a.wav''
     = Inr (sha256_hexdigest concat_hasher [82, 73, 70, 70]) \<and>
   hash_audio_file concat_hasher [''b.wav'' \<mapsto> File [82, 73, 70, 70]] ''b.wav''
     = hash_audio_file concat_hasher [''a.wav'' \<mapsto> File [82, 73, 70, 70]] ''a.wav''"
proof -
  have c: "hashlib_contract concat_hasher"
    by (simp add: hashlib_contract_def concat_hasher_def)
  have a: "[''a.wav'' \<mapsto> File [82, 73, 70, 70]] ''a.wav'' = Some (File [82, 73, 70, 70])"
    by simp
  have b: "[''b.wav'' \<mapsto> File [82, 73, 70, 70]] ''b.wav'' = Some (File [82, 73, 70, 70])"
    by simp
  from hash_audio_file_is_digest_of_content [where H = concat_hasher
      and files = "[''a.wav'' \<mapsto> File [82, 73, 70, 70]]" and file_path = "''a.wav''"
      and content = "[82, 73, 70, 70]"
      and files' = "[''b.wav'' \<mapsto> File [82, 73, 70, 70]]" and file_path' = "''b.wav''"]
    a b c
  show ?thesis by blast
qed

subsection \<open>Spectrogram width\<close>

lemma figure_width_clamped:
  "10 \<le> figure_width d \<and> figure_width d \<le> 40 \<and> (d \<le> 40 \<longrightarrow> figure_width d = 10)"
  by (auto simp: figure_width_def min_def max_def)

text \<open>
  C8. For audio of 8 seconds (176400 samples at 22050 Hz) the width formula
  \<open>min (max (duration / 4) 10) 40\<close> yields the minimum, 10 inches, and the figure is
  requested at 10 by 10 inches and 100 dots per inch: 10 inches times the DPI, 1000
  pixels, wide.
\<close>

theorem figure_request_8_seconds:
  "audio_duration 176400 22050 = Inr 8 \<and>
   figure_width 8 = min (max (8 / 4) 10) 40 \<and>
   figure_request 8 = ((10, 10), 100) \<and>
   fst (fst (figure_request 8)) * snd (figure_request 8) = 1000"
  by (simp add: audio_duration_def figure_request_def figure_width_def figure_height_def
      figure_dpi_def)

subsection \<open>Time span of the extracted segment\<close>

lemma round_half_even_error: "\<bar>of_int (round_half_even y) - y\<bar> \<le> 1 / 2"
proof -
  have "of_int \<lfloor>y\<rfloor> \<le> y" "y < of_int \<lfloor>y\<rfloor> + 1"
    by linarith+
  then show ?thesis
    by (auto simp: round_half_even_def Let_def)
qed

lemma format_2f_error: "\<bar>format_2f x - x\<bar> \<le> 1 / 200"
proof -
  have "\<bar>of_int (round_half_even (x * 100)) - x * 100\<bar> \<le> 1 / 2"
    by (rule round_half_even_error)
  then show ?thesis
    by (simp add: format_2f_def field_simps abs_le_iff)
qed

lemma force_aspect_width:
  assumes "0 < w" "0 < h"
  shows "0 < fst (force_aspect (w, h))"
  using assms by (simp add: force_aspect_def)

lemma middle_segment_inside:
  assumes "middle_segment (W, H) = (left, right)"
  shows "0 \<le> left \<and> left \<le> right \<and> right \<le> int W"
  using assms
  by (auto simp: middle_segment_def Let_def split: if_splits)

text \<open>
  C6, as the specification states it: the reported times equal \<open>left / W * D\<close> and
  \<open>right / W * D\<close> exactly. For a rendered image of 1000 by 1000 pixels and 8 seconds of
  audio the segment is \<open>[1000, 2000)\<close> of a width of 3000; the times computed are 8/3 and
  16/3, the times reported are 2.67 and 5.33.
\<close>

theorem reported_span_counterexample:
  "spectrogram_segment (1000, 1000) 8
     = Inr ((3000, 1000), (1000, 2000), (8 / 3, 16 / 3), (267 / 100, 533 / 100)) \<and>
   (267 / 100, 533 / 100) \<noteq> ((1000 :: rat) / 3000 * 8, (2000 :: rat) / 3000 * 8)"
  by (simp add: spectrogram_segment_def force_aspect_def middle_segment_def time_span_def
      format_2f_def round_half_even_def Let_def floor_numeral_div_rat)

text \<open>
  C6, amended. For the crop region \<open>[left, right)\<close> that \<open>create_improved_spectrogram\<close>
  takes out of an image of width \<open>W\<close> for audio of duration \<open>D\<close>, the start and end times
  it computes are \<open>left / W * D\<close> and \<open>right / W * D\<close> (floats read as exact rationals), and
  the times it reports are these two rounded to two decimals, so within 0.005 of them.
\<close>

theorem spectrogram_time_span:
  assumes "0 < w" and "0 < h"
  shows "\<exists>W H left right.
           spectrogram_segment (w, h) D
             = Inr ((W, H), (left, right),
                    (of_int left / of_nat W * D, of_int right / of_nat W * D),
                    (format_2f (of_int left / of_nat W * D),
                     format_2f (of_int right / of_nat W * D))) \<and>
           0 < W \<and> 0 \<le> left \<and> left \<le> right \<and> right \<le> int W \<and>
           \<bar>format_2f (of_int left / of_nat W * D) - of_int left / of_nat W * D\<bar> \<le> 1 / 200 \<and>
           \<bar>format_2f (of_int right / of_nat W * D) - of_int right / of_nat W * D\<bar> \<le> 1 / 200"
proof -
  obtain W H where f: "force_aspect (w, h) = (W, H)"
    by (cases "force_aspect (w, h)")
  obtain left right where m: "middle_segment (W, H) = (left, right)"
    by (cases "middle_segment (W, H)")
  from force_aspect_width [OF assms] f have W: "0 < W" by simp
  from middle_segment_inside [OF m] have i: "0 \<le> left" "left \<le> right" "right \<le> int W"
    by simp_all
  have "spectrogram_segment (w, h) D
      = Inr ((W, H), (left, right),
             (of_int left / of_nat W * D, of_int right / of_nat W * D),
             (format_2f (of_int left / of_nat W * D),
              format_2f (of_int right / of_nat W * D)))"
    using f m W by (simp add: spectrogram_segment_def time_span_def)
  with W i format_2f_error show ?thesis by blast
qed

theorem spectrogram_time_span_witness:
  "(0::nat) < 4000 \<and> (0::nat) < 1000 \<and>
   (\<exists>W H left right.
      spectrogram_segment (4000, 1000) 160
        = Inr ((W, H), (left, right),
               (of_int left / of_nat W * 160, of_int right / of_nat W * 160),
               (format_2f (of_int left / of_nat W * 160),
                format_2f (of_int right / of_nat W * 160))) \<and>
      0 < W \<and> 0 \<le> left \<and> left \<le> right \<and> right \<le> int W \<and>
      \<bar>format_2f (of_int left / of_nat W * 160) - of_int left / of_nat W * 160\<bar> \<le> 1 / 200 \<and>
      \<bar>format_2f (of_int right / of_nat W * 160) - of_int right / of_nat W * 160\<bar> \<le> 1 / 200)"
proof -
  have a: "(0::nat) < 4000" and b: "(0::nat) < 1000" by simp_all
  from spectrogram_time_span [OF a b, of 160] a b show ?thesis by blast
qed

lemma spectrogram_segment_example:
  "spectrogram_segment (4000, 1000) 160
     = Inr ((4000, 1000), (1500, 2500), (60, 100), (60, 100))"
  by (simp add: spectrogram_segment_def force_aspect_def middle_segment_def time_span_def
      format_2f_def round_half_even_def Let_def)

subsection \<open>A missing input file\<close>

text \<open>
  C9. On a path that names nothing, each pipeline is to detect the missing file, report
  it and return a null result. \<open>create_spotify_canvas\<close> does so. \<open>create_album_artwork_v7\<close>
  does not: run on the missing \<^verbatim>\<open>song.wav\<close> of an empty file system, it creates its output
  directory and then lets the \<^verbatim>\<open>FileNotFoundError\<close> of \<^verbatim>\<open>open\<close> escape; it returns
  nothing.
\<close>

theorem create_album_artwork_v7_missing_input:
  "create_spotify_canvas demo_process Map.empty ''song.wav''
     = ([''Error: File does not exist''], Returned None, Map.empty) \<and>
   create_album_artwork_v7 concat_hasher demo_output_dir demo_continue Map.empty ''song.wav''
     = (Raised FileNotFoundError, [''id_song_wav_v7_sat1.0'' \<mapsto> Dir]) \<and>
   fst (create_album_artwork_v7 concat_hasher demo_output_dir demo_continue Map.empty ''song.wav'')
     \<noteq> Returned None"
  by (simp add: create_spotify_canvas_def path_exists_def create_album_artwork_v7_def
      makedirs_def hash_audio_file_def open_rb_def demo_output_dir_def)

text \<open>
  The same on every file system and every path that names nothing: the guard of
  \<open>create_spotify_canvas\<close> answers, and leaves the file system as it was;
  \<open>create_album_artwork_v7\<close> never returns, an exception escapes it, and where its output
  directory can be created the exception is the \<^verbatim>\<open>FileNotFoundError\<close> of \<^verbatim>\<open>open\<close>.
\<close>

lemma missing_input_behaviour:
  assumes "files path = None"
  shows "create_spotify_canvas process files path
           = ([''Error: File does not exist''], Returned None, files) \<and>
         (\<exists>e files'. create_album_artwork_v7 H output_dir_of continue files path
                        = (Raised e, files')) \<and>
         (files (output_dir_of path) = None \<and> output_dir_of path \<noteq> path \<longrightarrow>
            create_album_artwork_v7 H output_dir_of continue files path
              = (Raised FileNotFoundError, files(output_dir_of path \<mapsto> Dir)))"
proof -
  have 1: "create_spotify_canvas process files path
           = ([''Error: File does not exist''], Returned None, files)"
    using assms by (simp add: create_spotify_canvas_def path_exists_def)
  have 2: "\<exists>e files'. create_album_artwork_v7 H output_dir_of continue files path
                        = (Raised e, files')"
    using assms
    by (auto simp: create_album_artwork_v7_def makedirs_def hash_audio_file_def open_rb_def
        split: option.splits fs_entry.splits)
  have 3: "create_album_artwork_v7 H output_dir_of continue files path
              = (Raised FileNotFoundError, files(output_dir_of path \<mapsto> Dir))"
    if "files (output_dir_of path) = None \<and> output_dir_of path \<noteq> path"
    using assms that
    by (auto simp: create_album_artwork_v7_def makedirs_def hash_audio_file_def open_rb_def)
  from 1 2 3 show ?thesis by blast
qed

subsection \<open>Compositing\<close>

text \<open>
  C5, as the specification states it: the spectrogram is resized to the dimensions the
  identicon has after it is scaled down. For an identicon of 5000 by 5000 pixels the
  spectrogram layer is 5000 by 5000 and the identicon layer 2000 by 2000.
\<close>

theorem composite_sizes_counterexample:
  "layer_sizes (composite_layers nearest demo_over demo_identicon demo_spectrogram)
     = Inr ((5000, 5000), (5000, 5000), (2000, 2000), (1500, 1500)) \<and>
   ((5000, 5000) :: nat \<times> nat) \<noteq> (2000, 2000)"
  by (simp add: layer_sizes_def composite_layers_def resize_def resize_identicon_def
      set_image_alpha_def putalpha_def new_image_def alpha_composite_def
      demo_identicon_def demo_spectrogram_def Let_def)


lemma scaled_positive:
  assumes "3 \<le> (w::nat)"
  shows "0 < nat \<lfloor>of_nat w * (2 / 5 :: rat)\<rfloor>" and "nat \<lfloor>of_nat w * (2 / 5 :: rat)\<rfloor> \<le> w"
proof -
  from assms have "(3::rat) \<le> of_nat w"
    by (metis of_nat_le_iff of_nat_numeral)
  then have "(1::rat) \<le> of_nat w * (2 / 5)" by simp
  then have "1 \<le> \<lfloor>of_nat w * (2 / 5 :: rat)\<rfloor>" by (simp add: le_floor_iff)
  then show "0 < nat \<lfloor>of_nat w * (2 / 5 :: rat)\<rfloor>" by simp
  have "of_nat w * (2 / 5 :: rat) \<le> of_nat w" by simp
  then have "\<lfloor>of_nat w * (2 / 5 :: rat)\<rfloor> \<le> int w"
    by (metis floor_mono floor_of_nat)
  then show "nat \<lfloor>of_nat w * (2 / 5 :: rat)\<rfloor> \<le> w" by simp
qed

lemma resize_size:
  assumes "0 < fst new_size" "0 < snd new_size"
  shows "\<exists>r. resize rs img new_size = Inr r \<and> img_size r = new_size"
  using assms by (simp add: resize_def)

lemma putalpha_alpha: "alpha_of (pixel_at (putalpha img a) x y) = a"
  by (simp add: putalpha_def alpha_of_def split: prod.splits)

lemma putalpha_size: "img_size (putalpha img a) = img_size img"
  by (simp add: putalpha_def)

lemma alpha_composite_result:
  "\<exists>r. alpha_composite src_over dst src (int px, int py) = Inr r \<and>
         img_size r = img_size dst \<and>
         (\<forall>x y. pixel_at r x y =
            (if px \<le> x \<and> x < px + fst (img_size src) \<and> py \<le> y \<and> y < py + snd (img_size src)
             then src_over (pixel_at src (x - px) (y - py)) (pixel_at dst x y)
             else pixel_at dst x y))"
proof -
  have "(int x < int p + int n) = (x < p + n)" for x p n :: nat
    by linarith
  then show ?thesis
    by (simp add: alpha_composite_def)
qed

text \<open>
  C5, amended. In the compositing stage of \<open>create_album_artwork_v7\<close>, the spectrogram
  is resized to the dimensions the identicon has before it is scaled down; the
  spectrogram layer gets the uniform alpha 127 (of 255, the code's 50 percent); the
  identicon is scaled by 0.4 and forced to full opacity (255); the final image, of the
  size of the spectrogram layer, is an opaque black background with the spectrogram
  composited over it and the identicon composited on top, centred. (For an identicon of
  at least 3 by 3 pixels, so that the scaled size is not zero.)
\<close>

theorem composite_layers_contract:
  assumes "img_size identicon = (w, h)" and "3 \<le> w" and "3 \<le> h"
  shows "\<exists>final spec_layer icon_layer iw ih px py.
           composite_layers rs src_over identicon spectrogram
             = Inr (final, spec_layer, icon_layer, (int px, int py)) \<and>
           img_size spec_layer = (w, h) \<and>
           (\<forall>x y. alpha_of (pixel_at spec_layer x y) = 127) \<and>
           img_size icon_layer = (iw, ih) \<and>
           iw = nat \<lfloor>of_nat w * (2 / 5 :: rat)\<rfloor> \<and> ih = nat \<lfloor>of_nat h * (2 / 5 :: rat)\<rfloor> \<and>
           (\<forall>x y. alpha_of (pixel_at icon_layer x y) = 255) \<and>
           img_size final = (w, h) \<and>
           px = (w - iw) div 2 \<and> py = (h - ih) div 2 \<and> px + iw \<le> w \<and> py + ih \<le> h \<and>
           (\<forall>x < w. \<forall>y < h.
              pixel_at final x y =
                (if px \<le> x \<and> x < px + iw \<and> py \<le> y \<and> y < py + ih
                 then src_over (pixel_at icon_layer (x - px) (y - py))
                        (src_over (pixel_at spec_layer x y) (0, 0, 0, 255))
                 else src_over (pixel_at spec_layer x y) (0, 0, 0, 255)))"
proof -
  define iw where "iw = nat \<lfloor>of_nat w * (2 / 5 :: rat)\<rfloor>"
  define ih where "ih = nat \<lfloor>of_nat h * (2 / 5 :: rat)\<rfloor>"
  define px where "px = (w - iw) div 2"
  define py where "py = (h - ih) div 2"
  let ?black = "(0, 0, 0, 255) :: rgba"
  from assms have wh: "0 < fst (w, h)" "0 < snd (w, h)" by simp_all
  from resize_size [OF wh] obtain s1 where
    s1: "resize rs spectrogram (w, h) = Inr s1" "img_size s1 = (w, h)" by blast
  have sc: "0 < iw" "iw \<le> w" "0 < ih" "ih \<le> h"
    using scaled_positive assms(2,3) by (simp_all add: iw_def ih_def)
  then have "0 < fst (iw, ih)" "0 < snd (iw, ih)" by simp_all
  from resize_size [OF this] obtain i1 where
    i1: "resize rs identicon (iw, ih) = Inr i1" "img_size i1 = (iw, ih)" by blast
  have ri: "resize_identicon rs identicon (2 / 5) = Inr i1"
    using i1 assms(1) by (simp add: resize_identicon_def iw_def ih_def)
  define s2 where "s2 = set_image_alpha s1 127"
  define i2 where "i2 = putalpha i1 255"
  have 1: "img_size s2 = (w, h)"
    using s1 by (simp add: s2_def set_image_alpha_def putalpha_size)
  have 2: "\<forall>x y. alpha_of (pixel_at s2 x y) = 127"
    by (simp add: s2_def set_image_alpha_def putalpha_alpha)
  have 3: "img_size i2 = (iw, ih)"
    using i1 by (simp add: i2_def putalpha_size)
  have 4: "\<forall>x y. alpha_of (pixel_at i2 x y) = 255"
    by (simp add: i2_def putalpha_alpha)
  have 5: "px + iw \<le> w" "py + ih \<le> h"
    using sc by (simp_all add: px_def py_def)
  have pos: "(int w - int iw) div 2 = int px" "(int h - int ih) div 2 = int py"
    using sc by (simp_all add: px_def py_def of_nat_diff zdiv_int)
  from alpha_composite_result [of src_over "new_image (w, h) ?black" s2 0 0]
  obtain f1 where
    f1: "alpha_composite src_over (new_image (w, h) ?black) s2 (0, 0) = Inr f1"
    and f1s: "img_size f1 = (w, h)"
    and f1p: "\<forall>x y. pixel_at f1 x y =
               (if x < w \<and> y < h then src_over (pixel_at s2 x y) ?black else ?black)"
    using 1 by (auto simp: new_image_def)
  from alpha_composite_result [of src_over f1 i2 px py]
  obtain f2 where
    f2: "alpha_composite src_over f1 i2 (int px, int py) = Inr f2"
    and f2s: "img_size f2 = (w, h)"
    and f2p: "\<forall>x y. pixel_at f2 x y =
               (if px \<le> x \<and> x < px + iw \<and> py \<le> y \<and> y < py + ih
                then src_over (pixel_at i2 (x - px) (y - py)) (pixel_at f1 x y)
                else pixel_at f1 x y)"
    using 3 f1s by auto
  have run: "composite_layers rs src_over identicon spectrogram
            = Inr (f2, s2, i2, (int px, int py))"
    using s1 ri assms(1) 1 3 pos f1 f2
    by (simp add: composite_layers_def Let_def s2_def [symmetric] i2_def [symmetric])
  have 6: "\<forall>x < w. \<forall>y < h.
              pixel_at f2 x y =
                (if px \<le> x \<and> x < px + iw \<and> py \<le> y \<and> y < py + ih
                 then src_over (pixel_at i2 (x - px) (y - py))
                        (src_over (pixel_at s2 x y) ?black)
                 else src_over (pixel_at s2 x y) ?black)"
    using f2p f1p by simp
  from run 1 2 3 4 5 6 f2s iw_def ih_def px_def py_def show ?thesis by blast
qed


theorem composite_layers_contract_witness:
  "img_size demo_identicon = (5000, 5000) \<and> (3::nat) \<le> 5000 \<and>
   (\<exists>final spec_layer icon_layer.
      composite_layers nearest demo_over demo_identicon demo_spectrogram
        = Inr (final, spec_layer, icon_layer, (1500, 1500)) \<and>
      img_size spec_layer = (5000, 5000) \<and>
      (\<forall>x y. alpha_of (pixel_at spec_layer x y) = 127) \<and>
      img_size icon_layer = (2000, 2000) \<and>
      (\<forall>x y. alpha_of (pixel_at icon_layer x y) = 255) \<and>
      img_size final = (5000, 5000))"
proof -
  have s: "img_size demo_identicon = (5000, 5000)"
    by (simp add: demo_identicon_def)
  have t: "(3::nat) \<le> 5000" by simp
  have iw: "nat \<lfloor>of_nat 5000 * (2 / 5 :: rat)\<rfloor> = 2000" by simp
  from composite_layers_contract [OF s t t, of nearest demo_over demo_spectrogram]
  obtain final spec_layer icon_layer iw ih px py where
    "composite_layers nearest demo_over demo_identicon demo_spectrogram
       = Inr (final, spec_layer, icon_layer, (int px, int py))"
    "img_size spec_layer = (5000, 5000)"
    "\<forall>x y. alpha_of (pixel_at spec_layer x y) = 127"
    "img_size icon_layer = (iw, ih)"
    "iw = nat \<lfloor>of_nat 5000 * (2 / 5 :: rat)\<rfloor>" "ih = nat \<lfloor>of_nat 5000 * (2 / 5 :: rat)\<rfloor>"
    "\<forall>x y. alpha_of (pixel_at icon_layer x y) = 255"
    "img_size final = (5000, 5000)"
    "px = (5000 - iw) div 2" "py = (5000 - ih) div 2"
    by blast
  with iw s t show ?thesis by simp
qed

lemma composite_layers_example:
  "final_pixel (composite_layers nearest demo_over demo_identicon demo_spectrogram) 0 0
     = Inr (99, 49, 24, 255) \<and>
   final_pixel (composite_layers nearest demo_over demo_identicon demo_spectrogram) 2500 2500
     = Inr (60, 120, 180, 255)"
  by (simp add: final_pixel_def composite_layers_def resize_def resize_identicon_def
      set_image_alpha_def putalpha_def new_image_def alpha_composite_def nearest_def
      demo_over_def demo_identicon_def demo_spectrogram_def Let_def)

end
